theory Spec2Isabelle
  imports
    Complex_Main
    "HOL-Library.AList"
    "HOL-Library.Multiset"
    "HOL-Library.Char_ord"
    "HOL-Library.List_Lexorder"
    "HOL-Library.Product_Lexorder"
    "HOL-Library.Option_ord"
begin

section \<open>Search of R, C and L component values: the data model\<close>

text \<open>
  The program \<^verbatim>\<open>automatic_circuit_design_by_RCL_component_search.py\<close> keeps its
  configuration and its working values in module-level dictionaries and two module-level
  numbers. The embedding makes that state an explicit record that every operation takes
  and returns.

  Numbers: Python's floats (and the integers the configuration mixes with them) are
  modelled by \<^typ>\<open>real\<close>, \<^verbatim>\<open>math.sqrt\<close> by \<^const>\<open>sqrt\<close>, \<^verbatim>\<open>math.fabs\<close> by
  \<^const>\<open>abs\<close>. Rounding, overflow of float operations and NaN are outside the model;
  the one conversion of an unbounded integer to a float is modelled with its
  \<^verbatim>\<open>OverflowError\<close>.

  Exceptions: \<^verbatim>\<open>TypeError\<close>, \<^verbatim>\<open>ValueError\<close>, \<^verbatim>\<open>KeyError\<close>, \<^verbatim>\<open>ZeroDivisionError\<close>,
  \<^verbatim>\<open>EOFError\<close> and \<^verbatim>\<open>OverflowError\<close> are the Python exceptions that the statements of
  the program can raise (\<^verbatim>\<open>ValueError\<close> by explicit \<^verbatim>\<open>raise\<close>, the others by the
  interpreter).
  \<^verbatim>\<open>ConfigurationError\<close> and \<^verbatim>\<open>PrecursorMissingError\<close> are the error kinds named by
  the design documentation; the program defines no such classes and no statement of it
  raises them.
\<close>

datatype error =
    TypeError | ValueError | KeyError | ZeroDivisionError | EOFError | OverflowError
  | ConfigurationError | PrecursorMissingError

text \<open>
  A run of a stateful operation ends in one of three ways: it returns (\<open>Done\<close>), the
  process is ended by \<^verbatim>\<open>exit()\<close> with status 0 (\<open>Exited\<close>), or an exception
  propagates (\<open>Raised\<close>). Each carries the state reached at that moment.
\<close>

datatype 's outcome = Done 's | Exited 's | Raised error 's

text \<open>
  One entry of \<^verbatim>\<open>dic_resistors\<close>, \<^verbatim>\<open>dic_capacitors\<close> or \<^verbatim>\<open>dic_inductors\<close>: the keys
  of class \<^verbatim>\<open>Comp\<close>. A field holding \<^verbatim>\<open>None\<close> (or absent, which \<^verbatim>\<open>.get\<close> does not
  distinguish) is \<^const>\<open>None\<close>. The description is not read by any computation.
\<close>

record component =
  comp_name :: string
  comp_value :: "real option"
  comp_value_set :: "real list option"
  comp_value_scale :: "real list option"
  comp_tolerance :: "real option"
  comp_curr_value :: "real option"
  comp_best_value :: "real option"
  comp_worst_value :: "real option"
  comp_expanded_values :: "real list option"
  comp_expanded_tolerance :: "real list option"

text \<open>One entry of \<^verbatim>\<open>dic_target_calc_values\<close>: the keys of class \<^verbatim>\<open>TCalcValues\<close>.\<close>

record target =
  tcv_target_value :: "real option"
  tcv_calc_value :: "real option"
  tcv_best_value :: "real option"
  tcv_worst_value :: "real option"

text \<open>
  A dictionary is an association list in insertion order (the order \<^verbatim>\<open>.items()\<close>
  iterates in); \<^const>\<open>map_of\<close> is the lookup by key.
\<close>

type_synonym 'v dict = "(string \<times> 'v) list"

text \<open>The three fields that \<^verbatim>\<open>map_ids_and_component_combination_vals__set_fields\<close> writes.\<close>

datatype value_field = C_CURR_VALUE | C_BEST_VALUE | C_WORST_VALUE

text \<open>The two fields that \<^verbatim>\<open>make_list_component_expanded_values\<close> reads.\<close>

datatype list_field = C_EXPANDED_VALUES | C_EXPANDED_TOLERANCE

text \<open>The three fields of a target that \<^verbatim>\<open>set_dic_target_calc_values\<close> writes.\<close>

datatype target_field = C_CALC_VALUE | T_BEST_VALUE | T_WORST_VALUE

text \<open>
  What the run does that is not stored in a dictionary: \<open>Prompt\<close> is one call of
  \<^verbatim>\<open>input\<close>, \<open>Evaluate c\<close> one call of \<^verbatim>\<open>calc_evaluation_of_circuit_equations\<close> with
  the combination \<open>c\<close> as current values.
\<close>

datatype event = Prompt | Evaluate "real list"

record state =
  dic_in_fix_param :: "real option dict"
  dic_resistors :: "component dict"
  dic_capacitors :: "component dict"
  dic_inductors :: "component dict"
  dic_target_calc_values :: "target dict"
  g_best_prev_error :: real
  g_worst_prev_error :: real
  stdin :: "string list"
  events :: "event list"

text \<open>The standard series.\<close>

definition E24_resistor_values :: "real list" where
  "E24_resistor_values =
     [1.0, 1.1, 1.2, 1.3, 1.5, 1.6, 1.8, 2.0, 2.2,
      2.4, 2.7, 3.0, 3.3, 3.6, 3.9, 4.3, 4.7, 5.1,
      5.6, 6.2, 6.8, 7.5, 8.2, 9.1]"

definition E12_capacitor_values :: "real list" where
  "E12_capacitor_values =
     [1.0, 1.2, 1.5, 1.8, 2.2, 2.7, 3.3, 3.9, 4.7,
      5.6, 6.8, 8.2]"

section \<open>Value expansion\<close>

text \<open>
  The two nested loops of \<^verbatim>\<open>expand_component\<close> over the scale list and the standard
  series. Iterating the scale list or the series when it is \<^verbatim>\<open>None\<close> raises
  \<^verbatim>\<open>TypeError\<close>; the series is only iterated once a scale has been drawn.
\<close>

fun expand_scales :: "real list \<Rightarrow> real list option \<Rightarrow> real list \<Rightarrow> error + real list" where
  "expand_scales [] standard_scale_values values_list = Inr values_list"
| "expand_scales (scale # scales) standard_scale_values values_list =
     (case standard_scale_values of
        None \<Rightarrow> Inl TypeError
      | Some vals \<Rightarrow>
          expand_scales scales standard_scale_values
            (values_list @ map (\<lambda>val. val * scale) vals))"

text \<open>The body of the loop of \<^verbatim>\<open>expand_component\<close>: the list for one component.\<close>

definition expand_values :: "component \<Rightarrow> real list option \<Rightarrow> error + real list" where
  "expand_values component standard_scale_values =
     (case comp_value component of
        None \<Rightarrow>
          (case comp_value_set component of
             None \<Rightarrow>
               (case comp_value_scale component of
                  None \<Rightarrow> Inl TypeError
                | Some values_scale \<Rightarrow> expand_scales values_scale standard_scale_values [])
           | Some values \<Rightarrow> Inr values)
      | Some value \<Rightarrow> Inr [value])"

text \<open>
  \<^verbatim>\<open>expand_component\<close>: every entry of the dictionary, in order, receives its expanded
  list. An exception leaves the entries before the failing one expanded.
\<close>

fun expand_component :: "component dict \<Rightarrow> real list option \<Rightarrow> component dict outcome" where
  "expand_component [] standard_scale_values = Done []"
| "expand_component ((k, component) # rest) standard_scale_values =
     (case expand_values component standard_scale_values of
        Inl e \<Rightarrow> Raised e ((k, component) # rest)
      | Inr values_list \<Rightarrow>
          (let component' = component\<lparr>comp_expanded_values := Some values_list\<rparr> in
           case expand_component rest standard_scale_values of
             Done rest' \<Rightarrow> Done ((k, component') # rest')
           | Exited rest' \<Rightarrow> Exited ((k, component') # rest')
           | Raised e rest' \<Rightarrow> Raised e ((k, component') # rest')))"

section \<open>Tolerance expansion\<close>

text \<open>
  \<^verbatim>\<open>expand_each_component_tolerance\<close>. The product \<^verbatim>\<open>comp_val * comp_tolerance_perc\<close>
  raises \<^verbatim>\<open>TypeError\<close> when either operand is \<^verbatim>\<open>None\<close>.
\<close>

definition expand_each_component_tolerance ::
    "real option \<Rightarrow> real option \<Rightarrow> error + real list" where
  "expand_each_component_tolerance comp_val comp_tolerance_perc =
     (case comp_val of
        None \<Rightarrow> Inl TypeError
      | Some v \<Rightarrow>
          (case comp_tolerance_perc of
             None \<Rightarrow> Inl TypeError
           | Some t \<Rightarrow>
               (let delta = v * t * 0.01 in Inr [v - delta, v, v + delta])))"

fun expand_component_tolerance_value_list :: "component dict \<Rightarrow> component dict outcome" where
  "expand_component_tolerance_value_list [] = Done []"
| "expand_component_tolerance_value_list ((k, compone) # rest) =
     (case expand_each_component_tolerance (comp_best_value compone) (comp_tolerance compone) of
        Inl e \<Rightarrow> Raised e ((k, compone) # rest)
      | Inr expanded_tolerance_list \<Rightarrow>
          (let compone' = compone\<lparr>comp_expanded_tolerance := Some expanded_tolerance_list\<rparr> in
           case expand_component_tolerance_value_list rest of
             Done rest' \<Rightarrow> Done ((k, compone') # rest')
           | Exited rest' \<Rightarrow> Exited ((k, compone') # rest')
           | Raised e rest' \<Rightarrow> Raised e ((k, compone') # rest')))"

section \<open>Identifier order and the cartesian product\<close>

fun get_list_field :: "list_field \<Rightarrow> component \<Rightarrow> real list option" where
  "get_list_field C_EXPANDED_VALUES c = comp_expanded_values c"
| "get_list_field C_EXPANDED_TOLERANCE c = comp_expanded_tolerance c"

text \<open>
  \<^verbatim>\<open>make_list_component_expanded_values\<close>: the pairs (name, list) of a dictionary,
  sorted. Python compares the pairs by name (strings, by code point, a prefix first) and,
  for equal names, by the lists (lexicographically); these are the orders of
  \<^typ>\<open>string\<close>, \<^typ>\<open>real list\<close> and pairs used by \<^const>\<open>sort\<close> here. A field that is
  \<^verbatim>\<open>None\<close> is carried along as \<^const>\<open>None\<close>: the callers fail on it with
  \<^verbatim>\<open>TypeError\<close> before doing anything else (Python raises the same \<^verbatim>\<open>TypeError\<close>
  already while sorting when it has to compare \<^verbatim>\<open>None\<close> with a list under equal names).
\<close>

definition make_list_component_expanded_values ::
    "component dict \<Rightarrow> list_field \<Rightarrow> (string \<times> real list option) list" where
  "make_list_component_expanded_values dic_component field =
     sort (map (\<lambda>(_, compone). (comp_name compone, get_list_field field compone)) dic_component)"

definition make_two_combined_list_of_components ::
    "(string \<times> 'a) list \<Rightarrow> (string \<times> 'a) list \<Rightarrow> (string \<times> 'a) list
      \<Rightarrow> string list \<times> 'a list" where
  "make_two_combined_list_of_components list_resistors list_capacitors list_inductors =
     (map fst list_resistors @ map fst list_capacitors @ map fst list_inductors,
      map snd list_resistors @ map snd list_capacitors @ map snd list_inductors)"

text \<open>
  \<^verbatim>\<open>itertools.product(*pools)\<close>, as the Python documentation defines it:
  \<^verbatim>\<open>result = [[]]\<close>, then for each pool
  \<^verbatim>\<open>result = [x+[y] for x in result for y in pool]\<close>. The generator is lazy; the model
  is the list of what it yields, in order.
\<close>

definition itertools_product :: "'a list list \<Rightarrow> 'a list list" where
  "itertools_product pools =
     fold (\<lambda>pool result. concat (map (\<lambda>x. map (\<lambda>y. x @ [y]) pool) result)) pools [[]]"

text \<open>
  Iterating or measuring a list that is \<^verbatim>\<open>None\<close> raises \<^verbatim>\<open>TypeError\<close>: the lists of
  all components, or the exception.
\<close>

fun the_lists :: "'a list option list \<Rightarrow> error + 'a list list" where
  "the_lists [] = Inr []"
| "the_lists (None # _) = Inl TypeError"
| "the_lists (Some lst # rest) =
     (case the_lists rest of Inl e \<Rightarrow> Inl e | Inr lsts \<Rightarrow> Inr (lst # lsts))"

text \<open>
  The loop of \<^verbatim>\<open>full_search_of_R_C_L_component_values\<close> that multiplies the lengths
  of the sub-lists, starting from 1 (Python integers are unbounded).
\<close>

definition max_number_evaluations :: "'a list list \<Rightarrow> int" where
  "max_number_evaluations list_components_list_values =
     fold (\<lambda>lst max_number_evaluations. max_number_evaluations * int (length lst))
       list_components_list_values 1"

section \<open>Reading and writing the dictionaries\<close>

text \<open>The initial values of the two module-level extrema.\<close>

definition g_best_prev_error_init :: real where
  "g_best_prev_error_init = 10000000000.0"

definition g_worst_prev_error_init :: real where
  "g_worst_prev_error_init = 0.0"

definition get_best_prev_error :: "state \<Rightarrow> real" where
  "get_best_prev_error s = g_best_prev_error s"

definition set_best_prev_error :: "real \<Rightarrow> state \<Rightarrow> state" where
  "set_best_prev_error best_prev_error s = s\<lparr>g_best_prev_error := best_prev_error\<rparr>"

definition get_worst_prev_error :: "state \<Rightarrow> real" where
  "get_worst_prev_error s = g_worst_prev_error s"

definition set_worst_prev_error :: "real \<Rightarrow> state \<Rightarrow> state" where
  "set_worst_prev_error worst_prev_error s = s\<lparr>g_worst_prev_error := worst_prev_error\<rparr>"

text \<open>
  \<^verbatim>\<open>process_inner_dic\<close>: \<^verbatim>\<open>ValueError\<close> when the identifier is not a key, and when
  the field holds \<^verbatim>\<open>None\<close>. The second argument is the field, as a selector.
\<close>

definition process_inner_dic :: "'r option \<Rightarrow> ('r \<Rightarrow> 'v option) \<Rightarrow> error + 'v" where
  "process_inner_dic inner_dic field =
     (case inner_dic of
        Some d \<Rightarrow> (case field d of Some val \<Rightarrow> Inr val | None \<Rightarrow> Inl ValueError)
      | None \<Rightarrow> Inl ValueError)"

text \<open>The fixed parameters are kept by their \<^verbatim>\<open>"value"\<close> field, the only one read.\<close>

definition get_dic_in_fix_param :: "state \<Rightarrow> string \<Rightarrow> error + real" where
  "get_dic_in_fix_param s ident =
     process_inner_dic (map_of (dic_in_fix_param s) ident) (\<lambda>value. value)"

definition get_dic_resistors :: "state \<Rightarrow> string \<Rightarrow> (component \<Rightarrow> 'v option) \<Rightarrow> error + 'v" where
  "get_dic_resistors s ident field = process_inner_dic (map_of (dic_resistors s) ident) field"

definition get_dic_capacitors :: "state \<Rightarrow> string \<Rightarrow> (component \<Rightarrow> 'v option) \<Rightarrow> error + 'v" where
  "get_dic_capacitors s ident field = process_inner_dic (map_of (dic_capacitors s) ident) field"

definition get_dic_inductors :: "state \<Rightarrow> string \<Rightarrow> (component \<Rightarrow> 'v option) \<Rightarrow> error + 'v" where
  "get_dic_inductors s ident field = process_inner_dic (map_of (dic_inductors s) ident) field"

definition get_dic_target_calc_values :: "state \<Rightarrow> string \<Rightarrow> (target \<Rightarrow> 'v option) \<Rightarrow> error + 'v" where
  "get_dic_target_calc_values s ident field =
     process_inner_dic (map_of (dic_target_calc_values s) ident) field"

fun set_target_field :: "target_field \<Rightarrow> real \<Rightarrow> target \<Rightarrow> target" where
  "set_target_field C_CALC_VALUE v t = t\<lparr>tcv_calc_value := Some v\<rparr>"
| "set_target_field T_BEST_VALUE v t = t\<lparr>tcv_best_value := Some v\<rparr>"
| "set_target_field T_WORST_VALUE v t = t\<lparr>tcv_worst_value := Some v\<rparr>"

definition set_dic_target_calc_values ::
    "string \<Rightarrow> target_field \<Rightarrow> real \<Rightarrow> state \<Rightarrow> state outcome" where
  "set_dic_target_calc_values ident field v s =
     (case map_of (dic_target_calc_values s) ident of
        Some _ \<Rightarrow>
          Done (s\<lparr>dic_target_calc_values :=
                   AList.map_entry ident (set_target_field field v) (dic_target_calc_values s)\<rparr>)
      | None \<Rightarrow> Raised ValueError s)"

fun set_value_field :: "value_field \<Rightarrow> real \<Rightarrow> component \<Rightarrow> component" where
  "set_value_field C_CURR_VALUE v c = c\<lparr>comp_curr_value := Some v\<rparr>"
| "set_value_field C_BEST_VALUE v c = c\<lparr>comp_best_value := Some v\<rparr>"
| "set_value_field C_WORST_VALUE v c = c\<lparr>comp_worst_value := Some v\<rparr>"

text \<open>\<^verbatim>\<open>id.startswith(ch)\<close> for a one-character prefix.\<close>

fun startswith :: "string \<Rightarrow> char \<Rightarrow> bool" where
  "startswith [] ch = False"
| "startswith (c # _) ch = (c = ch)"

text \<open>
  \<^verbatim>\<open>map_ids_and_component_combination_vals__set_fields\<close>: the loop over
  \<^verbatim>\<open>zip(list_components_ids, combination)\<close>, which stops at the shorter of the two.
  \<^verbatim>\<open>dic[id]\<close> raises \<^verbatim>\<open>KeyError\<close> for a missing key; an identifier with none of the
  three prefixes raises \<^verbatim>\<open>ValueError\<close>.
\<close>

fun map_ids_and_component_combination_vals__set_fields ::
    "string list \<Rightarrow> real list \<Rightarrow> value_field \<Rightarrow> state \<Rightarrow> state outcome" where
  "map_ids_and_component_combination_vals__set_fields [] combination field s = Done s"
| "map_ids_and_component_combination_vals__set_fields (ident # ids) [] field s = Done s"
| "map_ids_and_component_combination_vals__set_fields (ident # ids) (val # vals) field s =
     (if startswith ident CHR ''R'' then
        (case map_of (dic_resistors s) ident of
           None \<Rightarrow> Raised KeyError s
         | Some _ \<Rightarrow>
             map_ids_and_component_combination_vals__set_fields ids vals field
               (s\<lparr>dic_resistors :=
                    AList.map_entry ident (set_value_field field val) (dic_resistors s)\<rparr>))
      else if startswith ident CHR ''C'' then
        (case map_of (dic_capacitors s) ident of
           None \<Rightarrow> Raised KeyError s
         | Some _ \<Rightarrow>
             map_ids_and_component_combination_vals__set_fields ids vals field
               (s\<lparr>dic_capacitors :=
                    AList.map_entry ident (set_value_field field val) (dic_capacitors s)\<rparr>))
      else if startswith ident CHR ''L'' then
        (case map_of (dic_inductors s) ident of
           None \<Rightarrow> Raised KeyError s
         | Some _ \<Rightarrow>
             map_ids_and_component_combination_vals__set_fields ids vals field
               (s\<lparr>dic_inductors :=
                    AList.map_entry ident (set_value_field field val) (dic_inductors s)\<rparr>))
      else Raised ValueError s)"

section \<open>The circuit evaluator and the two error measures\<close>

text \<open>
  Step 3 of the program, \<^verbatim>\<open>calc_evaluation_of_circuit_equations\<close>, is the part a user
  rewrites for another circuit. It reads the fixed parameters and the current values of
  the components through the four getters and writes the two computed thresholds. The
  equations are a parameter of the model: an evaluator receives the four getters (for
  components, of the field \<^verbatim>\<open>curr_value\<close>) and returns the pair
  (\<^verbatim>\<open>V_low_threshold\<close>, \<^verbatim>\<open>V_high_threshold\<close>) or the exception it raises.
\<close>

type_synonym getter = "string \<Rightarrow> error + real"

type_synonym evaluator = "getter \<Rightarrow> getter \<Rightarrow> getter \<Rightarrow> getter \<Rightarrow> error + real \<times> real"

text \<open>Float division: \<^verbatim>\<open>ZeroDivisionError\<close> on a zero divisor.\<close>

definition py_div :: "real \<Rightarrow> real \<Rightarrow> error + real" where
  "py_div a b = (if b = 0 then Inl ZeroDivisionError else Inr (a / b))"

text \<open>The equations of the program's own example circuit, in the order it evaluates them.\<close>

definition circuit_equations :: evaluator where
  "circuit_equations fix_param resistors capacitors inductors =
     (case fix_param ''VCC'' of Inl e \<Rightarrow> Inl e | Inr VCC \<Rightarrow>
     (case resistors ''R1'' of Inl e \<Rightarrow> Inl e | Inr R1 \<Rightarrow>
     (case resistors ''R2'' of Inl e \<Rightarrow> Inl e | Inr R2 \<Rightarrow>
     (case resistors ''R3'' of Inl e \<Rightarrow> Inl e | Inr R3 \<Rightarrow>
     (case capacitors ''C1'' of Inl e \<Rightarrow> Inl e | Inr C1 \<Rightarrow>
     (case capacitors ''C2'' of Inl e \<Rightarrow> Inl e | Inr C2 \<Rightarrow>
     (case inductors ''L1'' of Inl e \<Rightarrow> Inl e | Inr L1 \<Rightarrow>
     (case py_div (R2 * R3) (R2 + R3) of Inl e \<Rightarrow> Inl e | Inr R_total_low \<Rightarrow>
     (case py_div (VCC * R_total_low) (R1 + R_total_low) of Inl e \<Rightarrow> Inl e
      | Inr V_low_threshold \<Rightarrow>
     (case py_div (R1 * R3) (R1 + R3) of Inl e \<Rightarrow> Inl e | Inr R_total_high \<Rightarrow>
     (case py_div (VCC * R2) (R2 + R_total_high) of Inl e \<Rightarrow> Inl e
      | Inr V_high_threshold \<Rightarrow>
        Inr (V_low_threshold, V_high_threshold))))))))))))"

definition calc_evaluation_of_circuit_equations :: "evaluator \<Rightarrow> state \<Rightarrow> state outcome" where
  "calc_evaluation_of_circuit_equations ev s =
     (case ev (get_dic_in_fix_param s)
              (\<lambda>ident. get_dic_resistors s ident comp_curr_value)
              (\<lambda>ident. get_dic_capacitors s ident comp_curr_value)
              (\<lambda>ident. get_dic_inductors s ident comp_curr_value) of
        Inl e \<Rightarrow> Raised e s
      | Inr (V_low_threshold, V_high_threshold) \<Rightarrow>
          (case set_dic_target_calc_values ''V_low_threshold'' C_CALC_VALUE V_low_threshold s of
             Done s1 \<Rightarrow>
               set_dic_target_calc_values ''V_high_threshold'' C_CALC_VALUE V_high_threshold s1
           | r \<Rightarrow> r))"

text \<open>
  The four reads that open both error functions: the two targets and the two obtained
  values, or the \<^verbatim>\<open>ValueError\<close> of the first read that fails.
\<close>

definition read_targets_and_obtained :: "state \<Rightarrow> error + (real \<times> real \<times> real \<times> real)" where
  "read_targets_and_obtained s =
     (case get_dic_target_calc_values s ''V_low_threshold'' tcv_target_value of
        Inl e \<Rightarrow> Inl e | Inr V_low_threshold_target \<Rightarrow>
     (case get_dic_target_calc_values s ''V_high_threshold'' tcv_target_value of
        Inl e \<Rightarrow> Inl e | Inr V_high_threshold_target \<Rightarrow>
     (case get_dic_target_calc_values s ''V_low_threshold'' tcv_calc_value of
        Inl e \<Rightarrow> Inl e | Inr V_low_threshold_obtained \<Rightarrow>
     (case get_dic_target_calc_values s ''V_high_threshold'' tcv_calc_value of
        Inl e \<Rightarrow> Inl e | Inr V_high_threshold_obtained \<Rightarrow>
        Inr (V_low_threshold_target, V_high_threshold_target,
             V_low_threshold_obtained, V_high_threshold_obtained)))))"

text \<open>The two distances of Step 4 and Step 5.\<close>

definition distance_error :: "real \<Rightarrow> real \<Rightarrow> real \<Rightarrow> real \<Rightarrow> real" where
  "distance_error V_low_threshold_target V_high_threshold_target
       V_low_threshold_obtained V_high_threshold_obtained =
     sqrt ((V_low_threshold_target - V_low_threshold_obtained)\<^sup>2 +
           (V_high_threshold_target - V_high_threshold_obtained)\<^sup>2)"

definition absolute_distance_error :: "real \<Rightarrow> real \<Rightarrow> real \<Rightarrow> real \<Rightarrow> real" where
  "absolute_distance_error V_low_threshold_target V_high_threshold_target
       V_low_threshold_obtained V_high_threshold_obtained =
     \<bar>V_low_threshold_target - V_low_threshold_obtained\<bar> +
     \<bar>V_high_threshold_target - V_high_threshold_obtained\<bar>"

text \<open>
  \<^verbatim>\<open>calc_distance_error_best\<close>: the flag \<^verbatim>\<open>better_combination_values\<close> and the state.
\<close>

definition calc_distance_error_best :: "state \<Rightarrow> (bool \<times> state) outcome" where
  "calc_distance_error_best s =
     (let best_prev_error = get_best_prev_error s in
      case read_targets_and_obtained s of
        Inl e \<Rightarrow> Raised e (False, s)
      | Inr (V_low_threshold_target, V_high_threshold_target,
             V_low_threshold_obtained, V_high_threshold_obtained) \<Rightarrow>
          (let current_error =
                 distance_error V_low_threshold_target V_high_threshold_target
                   V_low_threshold_obtained V_high_threshold_obtained
           in if current_error < best_prev_error then
                (case set_dic_target_calc_values ''V_low_threshold'' T_BEST_VALUE
                        V_low_threshold_obtained (set_best_prev_error current_error s) of
                   Done s1 \<Rightarrow>
                     (case set_dic_target_calc_values ''V_high_threshold'' T_BEST_VALUE
                             V_high_threshold_obtained s1 of
                        Done s2 \<Rightarrow> Done (True, s2)
                      | Exited s2 \<Rightarrow> Exited (True, s2)
                      | Raised e s2 \<Rightarrow> Raised e (True, s2))
                 | Exited s1 \<Rightarrow> Exited (True, s1)
                 | Raised e s1 \<Rightarrow> Raised e (True, s1))
              else Done (False, s)))"

text \<open>
  \<^verbatim>\<open>calc_absolute_distance_error_worst\<close>: the flag \<^verbatim>\<open>even_worst_combination_values\<close>
  and the state.
\<close>

definition calc_absolute_distance_error_worst :: "state \<Rightarrow> (bool \<times> state) outcome" where
  "calc_absolute_distance_error_worst s =
     (let worst_prev_error = get_worst_prev_error s in
      case read_targets_and_obtained s of
        Inl e \<Rightarrow> Raised e (False, s)
      | Inr (V_low_threshold_target, V_high_threshold_target,
             V_low_threshold_obtained, V_high_threshold_obtained) \<Rightarrow>
          (let current_error =
                 absolute_distance_error V_low_threshold_target V_high_threshold_target
                   V_low_threshold_obtained V_high_threshold_obtained
           in if current_error > worst_prev_error then
                (case set_dic_target_calc_values ''V_low_threshold'' T_WORST_VALUE
                        V_low_threshold_obtained (set_worst_prev_error current_error s) of
                   Done s1 \<Rightarrow>
                     (case set_dic_target_calc_values ''V_high_threshold'' T_WORST_VALUE
                             V_high_threshold_obtained s1 of
                        Done s2 \<Rightarrow> Done (True, s2)
                      | Exited s2 \<Rightarrow> Exited (True, s2)
                      | Raised e s2 \<Rightarrow> Raised e (True, s2))
                 | Exited s1 \<Rightarrow> Exited (True, s1)
                 | Raised e s1 \<Rightarrow> Raised e (True, s1))
              else Done (False, s)))"

section \<open>The best pass\<close>

text \<open>
  The confirmation loop of \<^verbatim>\<open>full_search_of_R_C_L_component_values\<close>. Each turn
  calls \<^verbatim>\<open>input\<close>, which takes the next line of standard input; \<^verbatim>\<open>y\<close> or \<^verbatim>\<open>Y\<close>
  leaves the loop, \<^verbatim>\<open>n\<close> or \<^verbatim>\<open>N\<close> calls \<^verbatim>\<open>exit()\<close>, any other line asks again.
  Standard input is a finite list of lines here, and \<^verbatim>\<open>input\<close> raises \<^verbatim>\<open>EOFError\<close>
  at its end; a user who answers neither forever is not modelled.
\<close>

fun ask_continue :: "string list \<Rightarrow> state \<Rightarrow> state outcome" where
  "ask_continue [] s = Raised EOFError (s\<lparr>stdin := [], events := events s @ [Prompt]\<rparr>)"
| "ask_continue (resp # rest) s =
     (let s' = s\<lparr>stdin := rest, events := events s @ [Prompt]\<rparr> in
      if resp = ''y'' \<or> resp = ''Y'' then Done s'
      else if resp = ''n'' \<or> resp = ''N'' then Exited s'
      else ask_continue rest s')"

text \<open>
  The body of the \<^verbatim>\<open>for combination in iter_combinations\<close> loop of the best pass.
  The time estimate and the progress marks that the loop prints do not touch the state
  and are left out.
\<close>

definition best_step :: "evaluator \<Rightarrow> string list \<Rightarrow> real list \<Rightarrow> state \<Rightarrow> state outcome" where
  "best_step ev list_components_ids combination s =
     (case map_ids_and_component_combination_vals__set_fields
             list_components_ids combination C_CURR_VALUE s of
        Done s1 \<Rightarrow>
          (case calc_evaluation_of_circuit_equations ev
                  (s1\<lparr>events := events s1 @ [Evaluate combination]\<rparr>) of
             Done s2 \<Rightarrow>
               (case calc_distance_error_best s2 of
                  Done (better_combination_values, s3) \<Rightarrow>
                    (if better_combination_values then
                       map_ids_and_component_combination_vals__set_fields
                         list_components_ids combination C_BEST_VALUE s3
                     else Done s3)
                | Exited (_, s3) \<Rightarrow> Exited s3
                | Raised e (_, s3) \<Rightarrow> Raised e s3)
           | r \<Rightarrow> r)
      | r \<Rightarrow> r)"

fun best_loop :: "evaluator \<Rightarrow> string list \<Rightarrow> real list list \<Rightarrow> state \<Rightarrow> state outcome" where
  "best_loop ev list_components_ids [] s = Done s"
| "best_loop ev list_components_ids (combination # iter_combinations) s =
     (case best_step ev list_components_ids combination s of
        Done s' \<Rightarrow> best_loop ev list_components_ids iter_combinations s'
      | r \<Rightarrow> r)"

text \<open>
  The identifiers and the lists of the three dictionaries for one of the two list fields:
  the first lines of both passes.
\<close>

definition combined_lists :: "state \<Rightarrow> list_field \<Rightarrow> string list \<times> real list option list" where
  "combined_lists s field =
     (let list_resistors = make_list_component_expanded_values (dic_resistors s) field;
          list_capacitors = make_list_component_expanded_values (dic_capacitors s) field;
          list_inductors = make_list_component_expanded_values (dic_inductors s) field
      in make_two_combined_list_of_components list_resistors list_capacitors list_inductors)"

text \<open>
  The conversion of a Python integer to a float, as the division \<^verbatim>\<open>int / float\<close>
  performs it first. The largest double is \<open>2 ^ 1024 - 2 ^ 971\<close>; an integer that rounds
  (to nearest, ties to even) to \<open>2 ^ 1024\<close>, that is one of magnitude
  \<open>2 ^ 1024 - 2 ^ 970\<close> or more, raises \<^verbatim>\<open>OverflowError\<close>.
\<close>

definition float_of_int :: "int \<Rightarrow> error + real" where
  "float_of_int n =
     (if 2 ^ 1024 - 2 ^ 970 \<le> \<bar>n\<bar> then Inl OverflowError else Inr (real_of_int n))"

text \<open>
  \<^verbatim>\<open>full_search_of_R_C_L_component_values\<close>. The line
  \<^verbatim>\<open>five_perc = int(max_number_evaluations / 20.0)\<close> comes before the confirmation; its
  value only spaces the progress marks, which are left out, but its division converts the
  count to a float and can raise.
\<close>

definition full_search_of_R_C_L_component_values :: "evaluator \<Rightarrow> state \<Rightarrow> state outcome" where
  "full_search_of_R_C_L_component_values ev s =
     (case combined_lists s C_EXPANDED_VALUES of
        (list_components_ids, list_values) \<Rightarrow>
          (case the_lists list_values of
             Inl e \<Rightarrow> Raised e s
           | Inr list_components_list_values \<Rightarrow>
               (case float_of_int (max_number_evaluations list_components_list_values) of
                  Inl e \<Rightarrow> Raised e s
                | Inr max_number_evaluations_float \<Rightarrow>
                    (let five_perc = \<lfloor>max_number_evaluations_float / 20.0\<rfloor> in
                     case (if max_number_evaluations list_components_list_values > 25000000
                           then ask_continue (stdin s) s else Done s) of
                       Done s1 \<Rightarrow>
                         best_loop ev list_components_ids
                           (itertools_product list_components_list_values) s1
                     | r \<Rightarrow> r))))"

section \<open>The worst pass\<close>

definition worst_step :: "evaluator \<Rightarrow> string list \<Rightarrow> real list \<Rightarrow> state \<Rightarrow> state outcome" where
  "worst_step ev list_components_ids combination s =
     (case map_ids_and_component_combination_vals__set_fields
             list_components_ids combination C_CURR_VALUE s of
        Done s1 \<Rightarrow>
          (case calc_evaluation_of_circuit_equations ev
                  (s1\<lparr>events := events s1 @ [Evaluate combination]\<rparr>) of
             Done s2 \<Rightarrow>
               (case calc_absolute_distance_error_worst s2 of
                  Done (even_worst_combination_values, s3) \<Rightarrow>
                    (if even_worst_combination_values then
                       map_ids_and_component_combination_vals__set_fields
                         list_components_ids combination C_WORST_VALUE s3
                     else Done s3)
                | Exited (_, s3) \<Rightarrow> Exited s3
                | Raised e (_, s3) \<Rightarrow> Raised e s3)
           | r \<Rightarrow> r)
      | r \<Rightarrow> r)"

fun worst_loop :: "evaluator \<Rightarrow> string list \<Rightarrow> real list list \<Rightarrow> state \<Rightarrow> state outcome" where
  "worst_loop ev list_components_ids [] s = Done s"
| "worst_loop ev list_components_ids (combination # iter_combinations) s =
     (case worst_step ev list_components_ids combination s of
        Done s' \<Rightarrow> worst_loop ev list_components_ids iter_combinations s'
      | r \<Rightarrow> r)"

text \<open>The three calls of \<^verbatim>\<open>expand_component_tolerance_value_list\<close> that open the pass.\<close>

definition expand_all_tolerances :: "state \<Rightarrow> state outcome" where
  "expand_all_tolerances s =
     (case expand_component_tolerance_value_list (dic_resistors s) of
        Done d1 \<Rightarrow>
          (case expand_component_tolerance_value_list (dic_capacitors s) of
             Done d2 \<Rightarrow>
               (case expand_component_tolerance_value_list (dic_inductors s) of
                  Done d3 \<Rightarrow>
                    Done (s\<lparr>dic_resistors := d1, dic_capacitors := d2, dic_inductors := d3\<rparr>)
                | Exited d3 \<Rightarrow>
                    Exited (s\<lparr>dic_resistors := d1, dic_capacitors := d2, dic_inductors := d3\<rparr>)
                | Raised e d3 \<Rightarrow>
                    Raised e (s\<lparr>dic_resistors := d1, dic_capacitors := d2, dic_inductors := d3\<rparr>))
           | Exited d2 \<Rightarrow> Exited (s\<lparr>dic_resistors := d1, dic_capacitors := d2\<rparr>)
           | Raised e d2 \<Rightarrow> Raised e (s\<lparr>dic_resistors := d1, dic_capacitors := d2\<rparr>))
      | Exited d1 \<Rightarrow> Exited (s\<lparr>dic_resistors := d1\<rparr>)
      | Raised e d1 \<Rightarrow> Raised e (s\<lparr>dic_resistors := d1\<rparr>))"

definition worst_tolerance_component_analysis :: "evaluator \<Rightarrow> state \<Rightarrow> state outcome" where
  "worst_tolerance_component_analysis ev s =
     (case expand_all_tolerances s of
        Done s1 \<Rightarrow>
          (case combined_lists s1 C_EXPANDED_TOLERANCE of
             (list_components_ids, list_values) \<Rightarrow>
               (case the_lists list_values of
                  Inl e \<Rightarrow> Raised e s1
                | Inr list_components_list_values \<Rightarrow>
                    worst_loop ev list_components_ids
                      (itertools_product list_components_list_values) s1))
      | r \<Rightarrow> r)"

section \<open>The main program\<close>

text \<open>
  \<^verbatim>\<open>consistency_testing_of_fixed_parameters\<close> (Step 2): the flag \<^verbatim>\<open>passed_tests\<close>,
  or the \<^verbatim>\<open>ValueError\<close> of a read that fails.
\<close>

definition consistency_testing_of_fixed_parameters :: "state \<Rightarrow> error + bool" where
  "consistency_testing_of_fixed_parameters s =
     (case get_dic_in_fix_param s ''VCC'' of Inl e \<Rightarrow> Inl e | Inr VCC \<Rightarrow>
     (case get_dic_target_calc_values s ''V_low_threshold'' tcv_target_value of
        Inl e \<Rightarrow> Inl e | Inr V_low_threshold_target \<Rightarrow>
     (case get_dic_target_calc_values s ''V_high_threshold'' tcv_target_value of
        Inl e \<Rightarrow> Inl e | Inr V_high_threshold_target \<Rightarrow>
        Inr (0 < VCC
             \<and> V_low_threshold_target < V_high_threshold_target
             \<and> (0 \<le> V_low_threshold_target \<and> V_low_threshold_target \<le> VCC)
             \<and> (0 \<le> V_high_threshold_target \<and> V_high_threshold_target \<le> VCC)))))"

text \<open>
  The reports of \<^verbatim>\<open>main\<close> only print, but the format \<^verbatim>\<open>%f\<close> raises
  \<^verbatim>\<open>TypeError\<close> for \<^verbatim>\<open>None\<close>, as does the subtraction in the printed delta. A report
  is modelled by the values it formats.
\<close>

definition percent_f :: "real option list \<Rightarrow> error + unit" where
  "percent_f vals = (if None \<in> set vals then Inl TypeError else Inr ())"

definition print_specification :: "state \<Rightarrow> error + unit" where
  "print_specification s =
     percent_f (map snd (dic_in_fix_param s)
                @ map (\<lambda>(_, t). tcv_target_value t) (dic_target_calc_values s))"

definition print_report ::
    "(target \<Rightarrow> real option) \<Rightarrow> (component \<Rightarrow> real option) \<Rightarrow> state \<Rightarrow> error + unit" where
  "print_report target_field comp_field s =
     percent_f (concat (map (\<lambda>(_, t). [target_field t, tcv_target_value t])
                          (dic_target_calc_values s))
                @ concat (map (\<lambda>(_, c). [comp_field c, comp_tolerance c])
                            (dic_resistors s @ dic_capacitors s @ dic_inductors s)))"

text \<open>The three calls of \<^verbatim>\<open>expand_component\<close> in \<^verbatim>\<open>main\<close>.\<close>

definition expand_all_components :: "state \<Rightarrow> state outcome" where
  "expand_all_components s =
     (case expand_component (dic_resistors s) (Some E24_resistor_values) of
        Done d1 \<Rightarrow>
          (case expand_component (dic_capacitors s) (Some E12_capacitor_values) of
             Done d2 \<Rightarrow>
               (case expand_component (dic_inductors s) None of
                  Done d3 \<Rightarrow>
                    Done (s\<lparr>dic_resistors := d1, dic_capacitors := d2, dic_inductors := d3\<rparr>)
                | Exited d3 \<Rightarrow>
                    Exited (s\<lparr>dic_resistors := d1, dic_capacitors := d2, dic_inductors := d3\<rparr>)
                | Raised e d3 \<Rightarrow>
                    Raised e (s\<lparr>dic_resistors := d1, dic_capacitors := d2, dic_inductors := d3\<rparr>))
           | Exited d2 \<Rightarrow> Exited (s\<lparr>dic_resistors := d1, dic_capacitors := d2\<rparr>)
           | Raised e d2 \<Rightarrow> Raised e (s\<lparr>dic_resistors := d1, dic_capacitors := d2\<rparr>))
      | Exited d1 \<Rightarrow> Exited (s\<lparr>dic_resistors := d1\<rparr>)
      | Raised e d1 \<Rightarrow> Raised e (s\<lparr>dic_resistors := d1\<rparr>))"

definition main :: "evaluator \<Rightarrow> state \<Rightarrow> state outcome" where
  "main ev s =
     (case print_specification s of Inl e \<Rightarrow> Raised e s | Inr _ \<Rightarrow>
     (case consistency_testing_of_fixed_parameters s of
        Inl e \<Rightarrow> Raised e s
      | Inr passed_tests \<Rightarrow>
          if \<not> passed_tests then Done s
          else
            (case expand_all_components s of
               Done s1 \<Rightarrow>
                 (case full_search_of_R_C_L_component_values ev s1 of
                    Done s2 \<Rightarrow>
                      (case print_report tcv_best_value comp_best_value s2 of
                         Inl e \<Rightarrow> Raised e s2
                       | Inr _ \<Rightarrow>
                           (case worst_tolerance_component_analysis ev s2 of
                              Done s3 \<Rightarrow>
                                (case print_report tcv_worst_value comp_worst_value s3 of
                                   Inl e \<Rightarrow> Raised e s3
                                 | Inr _ \<Rightarrow> Done s3)
                            | r \<Rightarrow> r))
                  | r \<Rightarrow> r)
             | r \<Rightarrow> r)))"

section \<open>The configuration that the program ships with\<close>

definition new_component ::
    "string \<Rightarrow> real option \<Rightarrow> real list option \<Rightarrow> real list option \<Rightarrow> real \<Rightarrow> component" where
  "new_component name val value_set value_scale tolerance =
     \<lparr>comp_name = name, comp_value = val, comp_value_set = value_set,
      comp_value_scale = value_scale, comp_tolerance = Some tolerance,
      comp_curr_value = None, comp_best_value = None, comp_worst_value = None,
      comp_expanded_values = None, comp_expanded_tolerance = None\<rparr>"

definition new_target :: "real \<Rightarrow> target" where
  "new_target target_value =
     \<lparr>tcv_target_value = Some target_value, tcv_calc_value = None,
      tcv_best_value = None, tcv_worst_value = None\<rparr>"

definition dic_in_fix_param_0 :: "real option dict" where
  "dic_in_fix_param_0 = [(''VCC'', Some 5.0), (''GND'', Some 0.0)]"

definition dic_resistors_0 :: "component dict" where
  "dic_resistors_0 =
     [(''R1'', new_component ''R1'' None None (Some [100, 1000, 10000, 100000]) 1.0),
      (''R2'', new_component ''R2'' None None (Some [100, 1000, 10000, 100000]) 1.0),
      (''R3'', new_component ''R3'' None None (Some [100, 1000, 10000, 100000]) 1.0)]"

definition dic_capacitors_0 :: "component dict" where
  "dic_capacitors_0 =
     [(''C1'', new_component ''C1'' (Some (1 / 10 ^ 6)) None None 10.0),
      (''C2'', new_component ''C2'' None (Some [1 / 10 ^ 6, 10 / 10 ^ 6]) None 1.0)]"

definition dic_inductors_0 :: "component dict" where
  "dic_inductors_0 = [(''L1'', new_component ''L1'' (Some (1 / 10 ^ 3)) None None 20.0)]"

definition dic_target_calc_values_0 :: "target dict" where
  "dic_target_calc_values_0 =
     [(''V_low_threshold'', new_target 0.555), (''V_high_threshold'', new_target 0.575)]"

text \<open>The state when \<^verbatim>\<open>main\<close> starts, for the lines waiting on standard input.\<close>

definition initial_state :: "string list \<Rightarrow> state" where
  "initial_state lines =
     \<lparr>dic_in_fix_param = dic_in_fix_param_0,
      dic_resistors = dic_resistors_0,
      dic_capacitors = dic_capacitors_0,
      dic_inductors = dic_inductors_0,
      dic_target_calc_values = dic_target_calc_values_0,
      g_best_prev_error = g_best_prev_error_init,
      g_worst_prev_error = g_worst_prev_error_init,
      stdin = lines,
      events = []\<rparr>"

section \<open>Notions used to state the properties\<close>

text \<open>The state that an outcome carries.\<close>

fun outcome_state :: "'s outcome \<Rightarrow> 's" where
  "outcome_state (Done s) = s"
| "outcome_state (Exited s) = s"
| "outcome_state (Raised e s) = s"

text \<open>A component specification with none of the three value sources.\<close>

definition no_value_source :: "component \<Rightarrow> bool" where
  "no_value_source c \<longleftrightarrow>
     comp_value c = None \<and> comp_value_set c = None \<and> comp_value_scale c = None"

text \<open>All components of the three dictionaries.\<close>

definition all_components :: "state \<Rightarrow> component list" where
  "all_components s = map snd (dic_resistors s @ dic_capacitors s @ dic_inductors s)"

text \<open>
  Two states with the same fixed parameters, targets, extrema, standard input and events:
  what an operation on the component dictionaries leaves alone.
\<close>

definition same_frame :: "state \<Rightarrow> state \<Rightarrow> bool" where
  "same_frame s s' \<longleftrightarrow>
     dic_in_fix_param s' = dic_in_fix_param s
   \<and> dic_target_calc_values s' = dic_target_calc_values s
   \<and> g_best_prev_error s' = g_best_prev_error s
   \<and> g_worst_prev_error s' = g_worst_prev_error s
   \<and> stdin s' = stdin s
   \<and> events s' = events s"

text \<open>
  The outputs of the evaluator for one combination: the current values are set from the
  combination in state \<open>s\<close> and the evaluator is run on the result. \<^const>\<open>None\<close> when
  setting the values or the evaluator raises.
\<close>

definition combination_outputs ::
    "evaluator \<Rightarrow> string list \<Rightarrow> state \<Rightarrow> real list \<Rightarrow> (real \<times> real) option" where
  "combination_outputs ev list_components_ids s combination =
     (case map_ids_and_component_combination_vals__set_fields
             list_components_ids combination C_CURR_VALUE s of
        Done s1 \<Rightarrow>
          (case ev (get_dic_in_fix_param s1)
                   (\<lambda>ident. get_dic_resistors s1 ident comp_curr_value)
                   (\<lambda>ident. get_dic_capacitors s1 ident comp_curr_value)
                   (\<lambda>ident. get_dic_inductors s1 ident comp_curr_value) of
             Inr out \<Rightarrow> Some out
           | Inl e \<Rightarrow> None)
      | Exited s1 \<Rightarrow> None
      | Raised e s1 \<Rightarrow> None)"

text \<open>The two target values of a state, when both can be read.\<close>

definition target_values :: "state \<Rightarrow> (real \<times> real) option" where
  "target_values s =
     (case get_dic_target_calc_values s ''V_low_threshold'' tcv_target_value of
        Inl e \<Rightarrow> None
      | Inr V_low_threshold_target \<Rightarrow>
          (case get_dic_target_calc_values s ''V_high_threshold'' tcv_target_value of
             Inl e \<Rightarrow> None
           | Inr V_high_threshold_target \<Rightarrow>
               Some (V_low_threshold_target, V_high_threshold_target)))"

text \<open>
  The error of one combination under a distance (\<^const>\<open>distance_error\<close> for the best
  pass, \<^const>\<open>absolute_distance_error\<close> for the worst pass): the distance between the
  targets and the evaluator's outputs for that combination.
\<close>

definition combination_error ::
    "(real \<Rightarrow> real \<Rightarrow> real \<Rightarrow> real \<Rightarrow> real) \<Rightarrow> evaluator \<Rightarrow> string list \<Rightarrow> state
      \<Rightarrow> real list \<Rightarrow> real option" where
  "combination_error err_fn ev list_components_ids s combination =
     (case target_values s of
        None \<Rightarrow> None
      | Some (V_low_threshold_target, V_high_threshold_target) \<Rightarrow>
          (case combination_outputs ev list_components_ids s combination of
             None \<Rightarrow> None
           | Some (V_low_threshold_obtained, V_high_threshold_obtained) \<Rightarrow>
               Some (err_fn V_low_threshold_target V_high_threshold_target
                       V_low_threshold_obtained V_high_threshold_obtained)))"

text \<open>
  The dictionary that an identifier is routed to by its first letter, in the order of the
  \<^verbatim>\<open>if\<close>/\<^verbatim>\<open>elif\<close> chain of \<^verbatim>\<open>map_ids_and_component_combination_vals__set_fields\<close>.
\<close>

datatype kind = Resistor | Capacitor | Inductor

definition route :: "string \<Rightarrow> kind option" where
  "route ident =
     (if startswith ident CHR ''R'' then Some Resistor
      else if startswith ident CHR ''C'' then Some Capacitor
      else if startswith ident CHR ''L'' then Some Inductor
      else None)"

fun comps :: "kind \<Rightarrow> state \<Rightarrow> component dict" where
  "comps Resistor s = dic_resistors s"
| "comps Capacitor s = dic_capacitors s"
| "comps Inductor s = dic_inductors s"

fun put_comps :: "kind \<Rightarrow> component dict \<Rightarrow> state \<Rightarrow> state" where
  "put_comps Resistor d s = s\<lparr>dic_resistors := d\<rparr>"
| "put_comps Capacitor d s = s\<lparr>dic_capacitors := d\<rparr>"
| "put_comps Inductor d s = s\<lparr>dic_inductors := d\<rparr>"

text \<open>The current value under a key of a dictionary, as the getters see it.\<close>

definition curr_view :: "state \<Rightarrow> kind \<Rightarrow> string \<Rightarrow> real option option" where
  "curr_view s kd k = map_option comp_curr_value (map_of (comps kd s) k)"

text \<open>
  Two states that an evaluation cannot tell apart, except for the current values of the
  identifiers in \<open>K\<close>, each in the dictionary it is routed to.
\<close>

definition agree :: "string set \<Rightarrow> state \<Rightarrow> state \<Rightarrow> bool" where
  "agree K s t \<longleftrightarrow>
     dic_in_fix_param s = dic_in_fix_param t
   \<and> target_values s = target_values t
   \<and> (\<forall>kd k. (map_of (comps kd s) k = None) = (map_of (comps kd t) k = None))
   \<and> (\<forall>kd k. route k \<noteq> Some kd \<or> k \<notin> K \<longrightarrow> curr_view s kd k = curr_view t kd k)"

text \<open>The evaluator applied to the getters of a state.\<close>

definition run_evaluator :: "evaluator \<Rightarrow> state \<Rightarrow> error + real \<times> real" where
  "run_evaluator ev s =
     ev (get_dic_in_fix_param s)
        (\<lambda>ident. get_dic_resistors s ident comp_curr_value)
        (\<lambda>ident. get_dic_capacitors s ident comp_curr_value)
        (\<lambda>ident. get_dic_inductors s ident comp_curr_value)"


text \<open>
  A configuration with the three resistors fixed at 1000 ohm and the supply voltage
  \<open>vcc\<close>; capacitors, inductor and targets as shipped.
\<close>

definition fixed_resistors_state :: "real \<Rightarrow> state" where
  "fixed_resistors_state vcc =
     (initial_state [])
       \<lparr>dic_in_fix_param := [(''VCC'', Some vcc), (''GND'', Some 0.0)],
        dic_resistors :=
          [(''R1'', new_component ''R1'' (Some 1000) None None 1.0),
           (''R2'', new_component ''R2'' (Some 1000) None None 1.0),
           (''R3'', new_component ''R3'' (Some 1000) None None 1.0)]\<rparr>"

text \<open>
  A configuration with 160 resistors, named \<^verbatim>\<open>R000\<close> to \<^verbatim>\<open>R159\<close>, each with the four
  scales of the shipped resistors; everything else as shipped.
\<close>

definition resistor_name :: "nat \<Rightarrow> string" where
  "resistor_name i =
     [CHR ''R'', char_of (48 + i div 100), char_of (48 + i div 10 mod 10), char_of (48 + i mod 10)]"

definition dic_resistors_many :: "component dict" where
  "dic_resistors_many =
     map (\<lambda>i. (resistor_name i,
                new_component (resistor_name i) None None
                  (Some [100, 1000, 10000, 100000]) 1.0))
       [0..<160]"

definition many_resistors_state :: "string list \<Rightarrow> state" where
  "many_resistors_state lines = (initial_state lines)\<lparr>dic_resistors := dic_resistors_many\<rparr>"

section \<open>Properties of the expansions\<close>

lemma expand_scales_eq:
  "expand_scales scales (Some vals) acc =
     Inr (acc @ concat (map (\<lambda>scale. map (\<lambda>val. val * scale) vals) scales))"
  by (induction scales arbitrary: acc) simp_all

lemma expand_component_Done:
  "expand_component d series = Done d' \<Longrightarrow>
     list_all2 (\<lambda>(k, c) (k', c'). k' = k \<and>
        (\<exists>vs. expand_values c series = Inr vs \<and> c' = c\<lparr>comp_expanded_values := Some vs\<rparr>)) d d'"
proof (induction d arbitrary: d')
  case Nil
  then show ?case by simp
next
  case (Cons p d)
  obtain k c where p: "p = (k, c)" by (cases p)
  from Cons.prems p obtain vs rest' where
    vs: "expand_values c series = Inr vs" and
    rest: "expand_component d series = Done rest'" and
    d': "d' = (k, c\<lparr>comp_expanded_values := Some vs\<rparr>) # rest'"
    by (auto simp: Let_def split: sum.splits outcome.splits)
  from Cons.IH [OF rest] vs d' p show ?case by simp
qed

text \<open>
  Claim C5. For every component specification the expansion resolves in the order
  fixed value, explicit set, scale list: a fixed value gives the singleton list of that
  value; without a fixed value, an explicit set is returned verbatim, in the caller's
  order; without either, the scale list gives the products \<open>unit * scale\<close>, for each
  scale in order and within it for each unit of the standard series in order, a list of
  length \<open>m * n\<close> for \<open>m\<close> scales and an \<open>n\<close>-value series. \<^verbatim>\<open>expand_component\<close>
  stores exactly this list in every entry of a dictionary.
\<close>

theorem expand_values_resolution:
  "(comp_value c = Some v \<longrightarrow> expand_values c series = Inr [v])
   \<and> (comp_value c = None \<and> comp_value_set c = Some vs \<longrightarrow> expand_values c series = Inr vs)
   \<and> (comp_value c = None \<and> comp_value_set c = None \<and> comp_value_scale c = Some scales \<longrightarrow>
        expand_values c (Some units) =
          Inr (concat (map (\<lambda>scale. map (\<lambda>unit. unit * scale) units) scales))
        \<and> length (concat (map (\<lambda>scale. map (\<lambda>unit. unit * scale) units) scales)) =
            length scales * length units)
   \<and> (expand_component d series = Done d' \<longrightarrow>
        list_all2 (\<lambda>(k, c) (k', c'). k' = k \<and>
          (\<exists>vs. expand_values c series = Inr vs \<and> c' = c\<lparr>comp_expanded_values := Some vs\<rparr>)) d d')"
proof -
  have len: "length (concat (map (\<lambda>scale. map (\<lambda>unit. unit * scale) units) scales)) =
      length scales * length units"
    by (simp add: length_concat comp_def sum_list_triv)
  show ?thesis
    using len by (auto simp: expand_values_def expand_scales_eq dest: expand_component_Done)
qed

theorem expand_values_resolution_witness:
  "expand_values (new_component ''C1'' (Some (1 / 10 ^ 6)) None None 10.0)
       (Some E12_capacitor_values) = Inr [1 / 10 ^ 6]
   \<and> expand_values (new_component ''C2'' None (Some [1 / 10 ^ 6, 10 / 10 ^ 6]) None 1.0)
       (Some E12_capacitor_values) = Inr [1 / 10 ^ 6, 10 / 10 ^ 6]
   \<and> expand_values (new_component ''R9'' None None (Some [100, 1000]) 1.0) (Some [1.0, 1.1, 1.2])
       = Inr [100, 110, 120, 1000, 1100, 1200]
   \<and> list_all2 (\<lambda>(k, c) (k', c'). k' = k \<and>
          (\<exists>vs. expand_values c None = Inr vs \<and> c' = c\<lparr>comp_expanded_values := Some vs\<rparr>))
        dic_inductors_0
        [(''L1'', (new_component ''L1'' (Some (1 / 10 ^ 3)) None None 20.0)
                    \<lparr>comp_expanded_values := Some [1 / 10 ^ 3]\<rparr>)]"
proof -
  have a: "expand_values (new_component ''C1'' (Some (1 / 10 ^ 6)) None None 10.0)
       (Some E12_capacitor_values) = Inr [1 / 10 ^ 6]"
    using expand_values_resolution
      [of "new_component ''C1'' (Some (1 / 10 ^ 6)) None None 10.0" "1 / 10 ^ 6"
          "Some E12_capacitor_values"]
    by (simp add: new_component_def)
  have b: "expand_values (new_component ''C2'' None (Some [1 / 10 ^ 6, 10 / 10 ^ 6]) None 1.0)
       (Some E12_capacitor_values) = Inr [1 / 10 ^ 6, 10 / 10 ^ 6]"
    using expand_values_resolution
      [of "new_component ''C2'' None (Some [1 / 10 ^ 6, 10 / 10 ^ 6]) None 1.0" _
          "Some E12_capacitor_values" "[1 / 10 ^ 6, 10 / 10 ^ 6]"]
    by (simp add: new_component_def)
  have c: "expand_values (new_component ''R9'' None None (Some [100, 1000]) 1.0)
       (Some [1.0, 1.1, 1.2]) = Inr [100, 110, 120, 1000, 1100, 1200]"
    using expand_values_resolution
      [of "new_component ''R9'' None None (Some [100, 1000]) 1.0" _ _ _
          "[100, 1000]" "[1.0, 1.1, 1.2]"]
    by (simp add: new_component_def)
  have run: "expand_component dic_inductors_0 None =
      Done [(''L1'', (new_component ''L1'' (Some (1 / 10 ^ 3)) None None 20.0)
                    \<lparr>comp_expanded_values := Some [1 / 10 ^ 3]\<rparr>)]"
    by (simp add: dic_inductors_0_def new_component_def expand_values_def)
  have d: "list_all2 (\<lambda>(k, c) (k', c'). k' = k \<and>
          (\<exists>vs. expand_values c None = Inr vs \<and> c' = c\<lparr>comp_expanded_values := Some vs\<rparr>))
        dic_inductors_0
        [(''L1'', (new_component ''L1'' (Some (1 / 10 ^ 3)) None None 20.0)
                    \<lparr>comp_expanded_values := Some [1 / 10 ^ 3]\<rparr>)]"
    using expand_values_resolution [of _ _ None _ _ _ dic_inductors_0
        "[(''L1'', (new_component ''L1'' (Some (1 / 10 ^ 3)) None None 20.0)
                    \<lparr>comp_expanded_values := Some [1 / 10 ^ 3]\<rparr>)]"] run
    by blast
  from a b c d show ?thesis by blast
qed

text \<open>
  The tolerance band in exact arithmetic: the three-element list
  \<open>[nominal * (1 - t), nominal, nominal * (1 + t)]\<close> with \<open>t = tolerance_percent / 100\<close>,
  in that order; for the nominal 1000 and a tolerance of 1 percent it is
  \<open>[990, 1000, 1010]\<close>.
\<close>

theorem expand_each_component_tolerance_band:
  "expand_each_component_tolerance (Some nominal) (Some tolerance_percent) =
     Inr [nominal * (1 - tolerance_percent / 100), nominal,
          nominal * (1 + tolerance_percent / 100)]
   \<and> expand_each_component_tolerance (Some 1000) (Some 1) = Inr [990, 1000, 1010]"
  by (simp add: expand_each_component_tolerance_def Let_def algebra_simps)

section \<open>Properties of the enumeration\<close>

lemma fold_product_step:
  "fold (\<lambda>pool result. concat (map (\<lambda>x. map (\<lambda>y. x @ [y]) pool) result)) pools acc =
     concat (map (\<lambda>x. map (\<lambda>ys. x @ ys) (product_lists pools)) acc)"
proof (induction pools arbitrary: acc)
  case Nil
  show ?case by (induction acc) simp_all
next
  case (Cons p ps)
  show ?case
    by (simp add: Cons.IH map_concat comp_def)
       (induction acc; simp add: map_concat comp_def)
qed

lemma itertools_product_eq: "itertools_product pools = product_lists pools"
proof -
  have "map ((@) []) (product_lists pools) = product_lists pools"
    by (rule map_idI) simp
  then show ?thesis by (simp add: itertools_product_def fold_product_step)
qed

lemma length_product_lists: "length (product_lists xss) = prod_list (map length xss)"
  by (induction xss) (simp_all add: length_concat comp_def sum_list_triv)

lemma in_itertools_product_length:
  "c \<in> set (itertools_product pools) \<Longrightarrow> length c = length pools"
  by (simp add: itertools_product_eq in_set_product_lists_length)

lemma fold_mult_length:
  "fold (\<lambda>lst m. m * int (length lst)) lsts acc =
     acc * prod_list (map (\<lambda>lst. int (length lst)) lsts)"
  by (induction lsts arbitrary: acc) (simp_all add: algebra_simps)

lemma fold_mult_int:
  "fold (\<lambda>n m. m * n) (ns :: int list) acc = acc * prod_list ns"
  by (induction ns arbitrary: acc) (simp_all add: algebra_simps)

lemma product_lists_by_index:
  "product_lists xss =
     map (\<lambda>idx. map2 (\<lambda>xs i. xs ! i) xss idx)
       (product_lists (map (\<lambda>xs. [0..<length xs]) xss))"
proof (induction xss)
  case Nil
  show ?case by simp
next
  case (Cons xs xss)
  let ?PLI = "product_lists (map (\<lambda>xs. [0..<length xs]) xss)"
  have "concat (map (\<lambda>x. map ((#) x) (product_lists xss)) xs) =
        concat (map (\<lambda>x. map ((#) x) (product_lists xss)) (map (\<lambda>i. xs ! i) [0..<length xs]))"
    by (simp add: map_nth)
  also have "\<dots> = concat (map (\<lambda>i. map ((#) (xs ! i)) (product_lists xss)) [0..<length xs])"
    by (simp add: comp_def)
  also have "\<dots> =
      concat (map (\<lambda>i. map (\<lambda>idx. map2 (\<lambda>xs i. xs ! i) (xs # xss) (i # idx)) ?PLI)
                [0..<length xs])"
    by (subst Cons.IH) (simp add: comp_def)
  finally show ?case
    by (simp add: map_concat comp_def)
qed

lemma sorted_wrt_Cons_blocks:
  fixes xs :: "('a::linorder) list"
  assumes "sorted_wrt (<) xs" "sorted_wrt (<) yss"
  shows "sorted_wrt (<) (concat (map (\<lambda>x. map ((#) x) yss) xs))"
  using assms
  by (induction xs) (auto simp: sorted_wrt_append sorted_wrt_map)

lemma sorted_wrt_product_lists:
  fixes xss :: "('a::linorder) list list"
  assumes "\<forall>xs\<in>set xss. sorted_wrt (<) xs"
  shows "sorted_wrt (<) (product_lists xss)"
  using assms by (induction xss) (simp_all add: sorted_wrt_Cons_blocks)

lemma sorted_map_fst:
  fixes ps :: "('a::linorder \<times> 'b::linorder) list"
  shows "sorted ps \<Longrightarrow> sorted (map fst ps)"
  by (induction ps) (auto simp: less_eq_prod_def)

lemma map_fst_sort:
  fixes ps :: "('a::linorder \<times> 'b::linorder) list"
  shows "map fst (sort ps) = sort (map fst ps)"
proof -
  have "mset (map fst (sort ps)) = mset (map fst ps)" by simp
  moreover have "sorted (map fst (sort ps))" by (rule sorted_map_fst) simp
  ultimately show ?thesis by (metis properties_for_sort)
qed

lemma fst_combined_lists:
  "fst (combined_lists s field) =
     sort (map (\<lambda>(_, c). comp_name c) (dic_resistors s))
     @ sort (map (\<lambda>(_, c). comp_name c) (dic_capacitors s))
     @ sort (map (\<lambda>(_, c). comp_name c) (dic_inductors s))"
  by (simp add: combined_lists_def make_two_combined_list_of_components_def
        make_list_component_expanded_values_def map_fst_sort comp_def case_prod_unfold)

lemma zip_combined_lists:
  "zip (fst (combined_lists s field)) (snd (combined_lists s field)) =
     make_list_component_expanded_values (dic_resistors s) field
     @ make_list_component_expanded_values (dic_capacitors s) field
     @ make_list_component_expanded_values (dic_inductors s) field"
  by (simp add: combined_lists_def make_two_combined_list_of_components_def Let_def
        zip_map_fst_snd)

lemma length_combined_lists:
  "length (snd (combined_lists s field)) = length (fst (combined_lists s field))"
  by (simp add: combined_lists_def make_two_combined_list_of_components_def Let_def)

text \<open>
  Claim C10. Both passes take their identifiers from \<open>combined_lists\<close>: the resistor
  identifiers in ascending string order, then the capacitor identifiers in ascending
  string order, then the inductor identifiers in ascending string order, each paired
  with its list. The combinations come in lexicographic order over that sequence: for
  each element of the first list in turn, all combinations of the remaining lists, so
  the last list varies fastest and the first slowest; equivalently, the combinations are
  the selections by index tuples, and the index tuples are strictly increasing in the
  lexicographic order.
\<close>

theorem enumeration_order:
  "fst (combined_lists s field) =
     sort (map (\<lambda>(_, c). comp_name c) (dic_resistors s))
     @ sort (map (\<lambda>(_, c). comp_name c) (dic_capacitors s))
     @ sort (map (\<lambda>(_, c). comp_name c) (dic_inductors s))
   \<and> zip (fst (combined_lists s field)) (snd (combined_lists s field)) =
       make_list_component_expanded_values (dic_resistors s) field
       @ make_list_component_expanded_values (dic_capacitors s) field
       @ make_list_component_expanded_values (dic_inductors s) field
   \<and> itertools_product ([] :: real list list) = [[]]
   \<and> itertools_product (pool # pools) =
       concat (map (\<lambda>x. map ((#) x) (itertools_product pools)) (pool :: real list))
   \<and> itertools_product (pool # pools) =
       map (\<lambda>idx. map2 (\<lambda>p i. p ! i) (pool # pools) idx)
         (itertools_product (map (\<lambda>p. [0..<length p]) (pool # pools)))
   \<and> sorted_wrt (<) (itertools_product (map (\<lambda>p. [0..<length p]) (pool # pools)))"
proof -
  have a: "itertools_product ([] :: real list list) = [[]]"
    by (simp add: itertools_product_eq)
  have b: "itertools_product (pool # pools) =
       concat (map (\<lambda>x. map ((#) x) (itertools_product pools)) pool)"
    by (simp add: itertools_product_eq)
  have c: "itertools_product (pool # pools) =
       map (\<lambda>idx. map2 (\<lambda>p i. p ! i) (pool # pools) idx)
         (itertools_product (map (\<lambda>p. [0..<length p]) (pool # pools)))"
    unfolding itertools_product_eq by (rule product_lists_by_index)
  have d: "sorted_wrt (<) (itertools_product (map (\<lambda>p. [0..<length p]) (pool # pools)))"
    unfolding itertools_product_eq by (rule sorted_wrt_product_lists) auto
  from fst_combined_lists [of s field] zip_combined_lists [of s field] a b c d
  show ?thesis by blast
qed

text \<open>
  Claim C4. The count computed before the enumeration is the product of the lengths of
  the per-component lists. It is obtained by one multiplication per component from
  the lengths alone, without building the product, and it is the number of combinations
  that the enumeration yields. For the shipped configuration (R1, R2 and R3 with 4
  scales of the 24-value series, C1 fixed, C2 a set of 2, L1 fixed) the lists have the
  lengths 96, 96, 96, 1, 2, 1 and the count is 1769472.
\<close>

theorem max_number_evaluations_product:
  "max_number_evaluations lsts = prod_list (map (\<lambda>lst. int (length lst)) lsts)
   \<and> max_number_evaluations lsts = fold (\<lambda>n m. m * n) (map (\<lambda>lst. int (length lst)) lsts) 1
   \<and> max_number_evaluations lsts = int (length (itertools_product lsts))
   \<and> (\<exists>s1 lsts0.
         expand_all_components (initial_state lines) = Done s1
       \<and> fst (combined_lists s1 C_EXPANDED_VALUES) = [''R1'', ''R2'', ''R3'', ''C1'', ''C2'', ''L1'']
       \<and> the_lists (snd (combined_lists s1 C_EXPANDED_VALUES)) = Inr lsts0
       \<and> map length lsts0 = [96, 96, 96, 1, 2, 1]
       \<and> max_number_evaluations lsts0 = 96 * 96 * 96 * 1 * 2 * 1
       \<and> max_number_evaluations lsts0 = 1769472)"
proof -
  have a: "max_number_evaluations lsts = prod_list (map (\<lambda>lst. int (length lst)) lsts)"
    by (simp add: max_number_evaluations_def fold_mult_length)
  have b: "max_number_evaluations lsts =
      fold (\<lambda>n m. m * n) (map (\<lambda>lst. int (length lst)) lsts) 1"
    by (simp add: a fold_mult_int)
  have "int (length (itertools_product lsts)) = prod_list (map (\<lambda>lst. int (length lst)) lsts)"
    by (induction lsts)
       (simp_all add: itertools_product_eq length_concat comp_def sum_list_triv)
  then have c: "max_number_evaluations lsts = int (length (itertools_product lsts))"
    using a by simp
  have d: "\<exists>s1 lsts0.
         expand_all_components (initial_state lines) = Done s1
       \<and> fst (combined_lists s1 C_EXPANDED_VALUES) = [''R1'', ''R2'', ''R3'', ''C1'', ''C2'', ''L1'']
       \<and> the_lists (snd (combined_lists s1 C_EXPANDED_VALUES)) = Inr lsts0
       \<and> map length lsts0 = [96, 96, 96, 1, 2, 1]
       \<and> max_number_evaluations lsts0 = 96 * 96 * 96 * 1 * 2 * 1
       \<and> max_number_evaluations lsts0 = 1769472"
    by (simp add: expand_all_components_def initial_state_def dic_resistors_0_def
          dic_capacitors_0_def dic_inductors_0_def new_component_def expand_values_def
          E24_resistor_values_def E12_capacitor_values_def combined_lists_def
          make_list_component_expanded_values_def make_two_combined_list_of_components_def
          less_list_code less_eq_list_code max_number_evaluations_def)
  from a b c d show ?thesis by blast
qed

section \<open>Failures of the two expansions\<close>

lemma expand_scales_error: "expand_scales scales series acc = Inl e \<Longrightarrow> e = TypeError"
  by (induction scales arbitrary: acc) (auto split: option.splits)

lemma expand_values_error: "expand_values c series = Inl e \<Longrightarrow> e = TypeError"
  by (auto simp: expand_values_def split: option.splits dest: expand_scales_error)

lemma expand_values_no_source: "no_value_source c \<Longrightarrow> expand_values c series = Inl TypeError"
  by (simp add: expand_values_def no_value_source_def)

lemma expand_component_cases:
  "(\<exists>d'. expand_component d series = Done d' \<and> (\<forall>c\<in>snd ` set d. \<not> no_value_source c))
   \<or> (\<exists>d'. expand_component d series = Raised TypeError d')"
proof (induction d)
  case Nil
  show ?case by simp
next
  case (Cons p d)
  obtain k c where p: "p = (k, c)" by (cases p)
  show ?case
  proof (cases "expand_values c series")
    case (Inl e)
    then show ?thesis using p expand_values_error [OF Inl] by simp
  next
    case (Inr vs)
    then have "\<not> no_value_source c" using expand_values_no_source [of c series] by auto
    then show ?thesis using Cons.IH p Inr by (auto simp: Let_def)
  qed
qed

lemma expand_all_components_cases:
  "(\<exists>s'. expand_all_components s = Done s' \<and> events s' = events s
          \<and> (\<forall>c\<in>set (all_components s). \<not> no_value_source c))
   \<or> (\<exists>s'. expand_all_components s = Raised TypeError s' \<and> events s' = events s)"
  using expand_component_cases [of "dic_resistors s" "Some E24_resistor_values"]
        expand_component_cases [of "dic_capacitors s" "Some E12_capacitor_values"]
        expand_component_cases [of "dic_inductors s" None]
  by (auto simp: expand_all_components_def all_components_def)

lemma expand_all_components_no_source:
  assumes "c \<in> set (all_components s)" "no_value_source c"
  shows "\<exists>s'. expand_all_components s = Raised TypeError s' \<and> events s' = events s"
  using expand_all_components_cases [of s] assms by blast

lemma main_no_source:
  assumes "c \<in> set (all_components s)" "no_value_source c"
  shows "events (outcome_state (main ev s)) = events s"
    and "print_specification s = Inr () \<Longrightarrow> consistency_testing_of_fixed_parameters s = Inr True
         \<Longrightarrow> \<exists>s'. main ev s = Raised TypeError s' \<and> events s' = events s"
  using expand_all_components_no_source [OF assms]
  by (auto simp: main_def split: sum.splits)

text \<open>
  Claim C8, as stated, fails: a component with none of the three value sources makes the
  expansion raise, but the exception is Python's \<^verbatim>\<open>TypeError\<close> (from iterating the
  scale list that is \<^verbatim>\<open>None\<close>), not a \<^verbatim>\<open>ConfigurationError\<close>. The inductor below has
  no value, no set and no scale list.
\<close>

theorem expansion_failure_counterexample:
  "expand_values (new_component ''L2'' None None None 20.0) None = Inl TypeError
   \<and> expand_values (new_component ''L2'' None None None 20.0) None \<noteq> Inl ConfigurationError
   \<and> expand_component [(''L2'', new_component ''L2'' None None None 20.0)] None
       = Raised TypeError [(''L2'', new_component ''L2'' None None None 20.0)]"
  by (simp add: expand_values_def new_component_def)

text \<open>
  Claim C8, amended. For every component specification in which none of the three value
  sources is present, value expansion fails with \<^verbatim>\<open>TypeError\<close>, whatever the standard
  series; so does the expansion of any dictionary that holds such a component. The
  failure is eager: \<^verbatim>\<open>main\<close> expands before it searches, no combination is evaluated
  and no confirmation is asked, and once the specification is printed and the
  consistency test has passed the run ends with that \<^verbatim>\<open>TypeError\<close>.
\<close>

theorem expansion_without_source_fails:
  "no_value_source c \<Longrightarrow>
     expand_values c series = Inl TypeError
   \<and> (c \<in> snd ` set d \<longrightarrow> (\<exists>d'. expand_component d series = Raised TypeError d'))
   \<and> (c \<in> set (all_components s) \<longrightarrow>
        (\<exists>s'. expand_all_components s = Raised TypeError s' \<and> events s' = events s)
        \<and> events (outcome_state (main ev s)) = events s
        \<and> (print_specification s = Inr () \<and> consistency_testing_of_fixed_parameters s = Inr True
             \<longrightarrow> (\<exists>s'. main ev s = Raised TypeError s' \<and> events s' = events s)))"
  using expand_values_no_source [of c series] expand_component_cases [of d series]
    expand_all_components_no_source [of c s] main_no_source [of c s ev]
  by blast

theorem expansion_without_source_fails_witness:
  "expand_values (new_component ''L1'' None None None 20.0) None = Inl TypeError
   \<and> (\<exists>d'. expand_component [(''L1'', new_component ''L1'' None None None 20.0)] None
             = Raised TypeError d')
   \<and> (\<exists>s'. main circuit_equations
             ((initial_state [])
                \<lparr>dic_inductors := [(''L1'', new_component ''L1'' None None None 20.0)]\<rparr>)
            = Raised TypeError s' \<and> events s' = [])"
proof -
  let ?c = "new_component ''L1'' None None None 20.0"
  let ?s = "(initial_state [])\<lparr>dic_inductors := [(''L1'', ?c)]\<rparr>"
  have ns: "no_value_source ?c"
    by (simp add: no_value_source_def new_component_def)
  have mem: "?c \<in> snd ` set [(''L1'', ?c)]" by simp
  have mem2: "?c \<in> set (all_components ?s)"
    by (simp add: all_components_def)
  have pr: "print_specification ?s = Inr ()"
    by (simp add: print_specification_def percent_f_def initial_state_def
          dic_in_fix_param_0_def dic_target_calc_values_0_def new_target_def)
  have co: "consistency_testing_of_fixed_parameters ?s = Inr True"
    by (simp add: consistency_testing_of_fixed_parameters_def get_dic_in_fix_param_def
          get_dic_target_calc_values_def process_inner_dic_def initial_state_def
          dic_in_fix_param_0_def dic_target_calc_values_0_def new_target_def)
  have ev0: "events ?s = []" by (simp add: initial_state_def)
  from expansion_without_source_fails [OF ns, of None "[(''L1'', ?c)]" ?s circuit_equations]
    mem mem2 pr co ev0
  show ?thesis by auto
qed

section \<open>Failure of the tolerance expansion\<close>

lemma expand_each_component_tolerance_error:
  "expand_each_component_tolerance v t = Inl e \<Longrightarrow> e = TypeError"
  by (auto simp: expand_each_component_tolerance_def Let_def split: option.splits)

lemma expand_component_tolerance_value_list_cases:
  "(\<exists>d'. expand_component_tolerance_value_list d = Done d'
          \<and> (\<forall>c\<in>snd ` set d. comp_best_value c \<noteq> None))
   \<or> (\<exists>d'. expand_component_tolerance_value_list d = Raised TypeError d')"
proof (induction d)
  case Nil
  show ?case by simp
next
  case (Cons p d)
  obtain k c where p: "p = (k, c)" by (cases p)
  show ?case
  proof (cases "expand_each_component_tolerance (comp_best_value c) (comp_tolerance c)")
    case (Inl e)
    then show ?thesis using p expand_each_component_tolerance_error [OF Inl] by simp
  next
    case (Inr vs)
    then have "comp_best_value c \<noteq> None"
      by (auto simp: expand_each_component_tolerance_def split: option.splits)
    then show ?thesis using Cons.IH p Inr by (auto simp: Let_def)
  qed
qed

lemma expand_all_tolerances_cases:
  "(\<exists>s'. expand_all_tolerances s = Done s'
          \<and> (\<forall>c\<in>set (all_components s). comp_best_value c \<noteq> None))
   \<or> (\<exists>s'. expand_all_tolerances s = Raised TypeError s' \<and> events s' = events s
            \<and> g_worst_prev_error s' = g_worst_prev_error s)"
  using expand_component_tolerance_value_list_cases [of "dic_resistors s"]
        expand_component_tolerance_value_list_cases [of "dic_capacitors s"]
        expand_component_tolerance_value_list_cases [of "dic_inductors s"]
  by (auto simp: expand_all_tolerances_def all_components_def)

lemma worst_pass_without_best_value:
  assumes "c \<in> set (all_components s)" "comp_best_value c = None"
  shows "\<exists>s'. worst_tolerance_component_analysis ev s = Raised TypeError s'
          \<and> events s' = events s \<and> g_worst_prev_error s' = g_worst_prev_error s"
  using expand_all_tolerances_cases [of s] assms
  by (auto simp: worst_tolerance_component_analysis_def)

text \<open>
  Claim C9, as stated, fails: expanding the tolerance of a nominal that is \<^verbatim>\<open>None\<close>
  raises, but the exception is Python's \<^verbatim>\<open>TypeError\<close> (from the product
  \<^verbatim>\<open>comp_val * comp_tolerance_perc\<close>), not a \<^verbatim>\<open>PrecursorMissingError\<close>.
\<close>

theorem tolerance_precondition_counterexample:
  "expand_each_component_tolerance None (Some 1.0) = Inl TypeError
   \<and> expand_each_component_tolerance None (Some 1.0) \<noteq> Inl PrecursorMissingError"
  by (simp add: expand_each_component_tolerance_def)

text \<open>
  Claim C9, amended. Tolerance expansion needs a nominal that is not \<^verbatim>\<open>None\<close>: for a
  nominal \<^verbatim>\<open>None\<close> it fails with \<^verbatim>\<open>TypeError\<close>, whatever the tolerance. Whenever the
  worst pass is started while some component has no best value (the best pass has not
  produced one), it fails with that \<^verbatim>\<open>TypeError\<close> before any combination is
  evaluated, and the worst error is untouched.
\<close>

theorem tolerance_expansion_without_best_value:
  "expand_each_component_tolerance None tolerance = Inl TypeError
   \<and> (c \<in> set (all_components s) \<and> comp_best_value c = None \<longrightarrow>
        (\<exists>s'. worst_tolerance_component_analysis ev s = Raised TypeError s'
              \<and> events s' = events s \<and> g_worst_prev_error s' = g_worst_prev_error s))"
  using worst_pass_without_best_value [of c s ev]
  by (simp add: expand_each_component_tolerance_def)

theorem tolerance_expansion_without_best_value_witness:
  "expand_each_component_tolerance None (Some 20.0) = Inl TypeError
   \<and> (\<exists>s'. worst_tolerance_component_analysis circuit_equations (initial_state [])
             = Raised TypeError s'
           \<and> events s' = [] \<and> g_worst_prev_error s' = 0)"
proof -
  let ?c = "new_component ''L1'' (Some (1 / 10 ^ 3)) None None 20.0"
  have mem: "?c \<in> set (all_components (initial_state []))"
    by (simp add: all_components_def initial_state_def dic_inductors_0_def)
  have best: "comp_best_value ?c = None" by (simp add: new_component_def)
  have init: "events (initial_state []) = []" "g_worst_prev_error (initial_state []) = 0"
    by (simp_all add: initial_state_def g_worst_prev_error_init_def)
  from tolerance_expansion_without_best_value
         [of "Some 20.0" ?c "initial_state []" circuit_equations] mem best init
  show ?thesis by auto
qed

section \<open>What the passes record: prompts and evaluations\<close>

lemma set_fields_frame:
  "same_frame s (outcome_state (map_ids_and_component_combination_vals__set_fields ids c f s))
   \<and> (\<forall>s'. map_ids_and_component_combination_vals__set_fields ids c f s \<noteq> Exited s')"
proof (induction ids c f s rule: map_ids_and_component_combination_vals__set_fields.induct)
  case (1 combination field s)
  show ?case by (simp add: same_frame_def)
next
  case (2 ident ids field s)
  show ?case by (simp add: same_frame_def)
next
  case (3 ident ids val vals field s)
  show ?case
    using "3.IH"
    by (auto simp: same_frame_def split: option.splits)
qed

lemma set_dic_target_calc_values_frame:
  "set_dic_target_calc_values ident field v s = r \<Longrightarrow>
     events (outcome_state r) = events s \<and> stdin (outcome_state r) = stdin s
     \<and> (\<forall>s'. r \<noteq> Exited s')"
  by (auto simp: set_dic_target_calc_values_def split: option.splits)

lemma calc_evaluation_frame:
  "events (outcome_state (calc_evaluation_of_circuit_equations ev s)) = events s
   \<and> stdin (outcome_state (calc_evaluation_of_circuit_equations ev s)) = stdin s
   \<and> (\<forall>s'. calc_evaluation_of_circuit_equations ev s \<noteq> Exited s')"
  by (auto simp: calc_evaluation_of_circuit_equations_def set_dic_target_calc_values_def
           split: sum.splits option.splits prod.splits outcome.splits)

lemma calc_distance_error_best_frame:
  "events (snd (outcome_state (calc_distance_error_best s))) = events s
   \<and> stdin (snd (outcome_state (calc_distance_error_best s))) = stdin s
   \<and> (\<forall>s'. calc_distance_error_best s \<noteq> Exited s')"
  by (auto simp: calc_distance_error_best_def set_dic_target_calc_values_def Let_def
        set_best_prev_error_def
           split: sum.splits option.splits prod.splits outcome.splits)

lemma best_step_events:
  "(events (outcome_state (best_step ev ids c s)) = events s
      \<or> events (outcome_state (best_step ev ids c s)) = events s @ [Evaluate c])
   \<and> stdin (outcome_state (best_step ev ids c s)) = stdin s
   \<and> (\<forall>s'. best_step ev ids c s \<noteq> Exited s')
   \<and> (\<forall>s'. best_step ev ids c s = Done s' \<longrightarrow> events s' = events s @ [Evaluate c])"
proof -
  let ?sf = map_ids_and_component_combination_vals__set_fields
  show ?thesis
  proof (cases "?sf ids c C_CURR_VALUE s")
    case (Done s1)
    have f1: "events s1 = events s" "stdin s1 = stdin s"
      using set_fields_frame [of s ids c C_CURR_VALUE] Done by (simp_all add: same_frame_def)
    let ?s1 = "s1\<lparr>events := events s1 @ [Evaluate c]\<rparr>"
    show ?thesis
    proof (cases "calc_evaluation_of_circuit_equations ev ?s1")
      case D2: (Done s2)
      have f2: "events s2 = events s @ [Evaluate c]" "stdin s2 = stdin s"
        using calc_evaluation_frame [of ev ?s1] D2 f1 by simp_all
      show ?thesis
      proof (cases "calc_distance_error_best s2")
        case D3: (Done bs)
        obtain b s3 where bs: "bs = (b, s3)" by (cases bs)
        have f3: "events s3 = events s @ [Evaluate c]" "stdin s3 = stdin s"
          using calc_distance_error_best_frame [of s2] D3 bs f2 by simp_all
        have f4: "events (outcome_state (?sf ids c C_BEST_VALUE s3)) = events s @ [Evaluate c]"
           "stdin (outcome_state (?sf ids c C_BEST_VALUE s3)) = stdin s"
           "\<forall>s'. ?sf ids c C_BEST_VALUE s3 \<noteq> Exited s'"
          using set_fields_frame [of s3 ids c C_BEST_VALUE] f3 by (simp_all add: same_frame_def)
        show ?thesis
          using Done D2 D3 bs f3 f4 by (auto simp: best_step_def)
      next
        case (Exited bs)
        then show ?thesis using calc_distance_error_best_frame [of s2] by simp
      next
        case R3: (Raised e bs)
        then show ?thesis
          using Done D2 calc_distance_error_best_frame [of s2] f2
          by (auto simp: best_step_def split: prod.splits)
      qed
    next
      case (Exited s2)
      then show ?thesis using calc_evaluation_frame [of ev ?s1] by simp
    next
      case R2: (Raised e s2)
      then show ?thesis
        using Done calc_evaluation_frame [of ev ?s1] f1 by (simp add: best_step_def)
    qed
  next
    case (Exited s1)
    then show ?thesis using set_fields_frame [of s ids c C_CURR_VALUE] by simp
  next
    case (Raised e s1)
    then show ?thesis
      using set_fields_frame [of s ids c C_CURR_VALUE] by (simp add: best_step_def same_frame_def)
  qed
qed

lemma best_loop_events:
  "\<exists>n\<le>length cs.
      events (outcome_state (best_loop ev ids cs s)) = events s @ map Evaluate (take n cs)
    \<and> stdin (outcome_state (best_loop ev ids cs s)) = stdin s
    \<and> (\<forall>s'. best_loop ev ids cs s \<noteq> Exited s')
    \<and> (\<forall>s'. best_loop ev ids cs s = Done s' \<longrightarrow> n = length cs)"
proof (induction cs arbitrary: s)
  case Nil
  show ?case by simp
next
  case (Cons c cs)
  note st = best_step_events [of ev ids c s]
  show ?case
  proof (cases "best_step ev ids c s")
    case (Done s1)
    from Cons.IH [of s1] obtain n where n: "n \<le> length cs"
      "events (outcome_state (best_loop ev ids cs s1)) = events s1 @ map Evaluate (take n cs)"
      "stdin (outcome_state (best_loop ev ids cs s1)) = stdin s1"
      "\<forall>s'. best_loop ev ids cs s1 \<noteq> Exited s'"
      "\<forall>s'. best_loop ev ids cs s1 = Done s' \<longrightarrow> n = length cs"
      by blast
    have "events s1 = events s @ [Evaluate c]" "stdin s1 = stdin s"
      using st Done by simp_all
    with n Done show ?thesis
      by (intro exI [of _ "Suc n"]) simp
  next
    case (Exited s1)
    then show ?thesis using st by simp
  next
    case (Raised e s1)
    have "events s1 = events s \<or> events s1 = events s @ [Evaluate c]" "stdin s1 = stdin s"
      using st Raised by simp_all
    then show ?thesis
    proof (elim disjE)
      assume "events s1 = events s"
      then show ?thesis using Raised \<open>stdin s1 = stdin s\<close>
        by (intro exI [of _ 0]) simp
    next
      assume "events s1 = events s @ [Evaluate c]"
      then show ?thesis using Raised \<open>stdin s1 = stdin s\<close>
        by (intro exI [of _ 1]) simp
    qed
  qed
qed

lemma ask_continue_declined:
  "set pre \<inter> {''y'', ''Y'', ''n'', ''N''} = {} \<Longrightarrow> r = ''n'' \<or> r = ''N'' \<Longrightarrow>
     ask_continue (pre @ r # post) s =
       Exited (s\<lparr>stdin := post, events := events s @ replicate (Suc (length pre)) Prompt\<rparr>)"
proof (induction pre arbitrary: s)
  case Nil
  then show ?case by auto
next
  case (Cons a pre)
  then show ?case by (auto simp: Let_def replicate_app_Cons_same)
qed

lemma ask_continue_confirmed:
  "set pre \<inter> {''y'', ''Y'', ''n'', ''N''} = {} \<Longrightarrow> r = ''y'' \<or> r = ''Y'' \<Longrightarrow>
     ask_continue (pre @ r # post) s =
       Done (s\<lparr>stdin := post, events := events s @ replicate (Suc (length pre)) Prompt\<rparr>)"
proof (induction pre arbitrary: s)
  case Nil
  then show ?case by auto
next
  case (Cons a pre)
  then show ?case by (auto simp: Let_def replicate_app_Cons_same)
qed

lemma ask_continue_events:
  "\<exists>k\<ge>1. events (outcome_state (ask_continue inp s)) = events s @ replicate k Prompt"
proof (induction inp arbitrary: s)
  case Nil
  show ?case by (intro exI [of _ 1]) simp
next
  case (Cons a inp)
  let ?s' = "s\<lparr>stdin := inp, events := events s @ [Prompt]\<rparr>"
  from Cons [of ?s'] obtain k where k: "k \<ge> 1"
    "events (outcome_state (ask_continue inp ?s')) = events ?s' @ replicate k Prompt"
    by blast
  show ?case
  proof (cases "a \<in> {''y'', ''Y'', ''n'', ''N''}")
    case True
    then show ?thesis by (intro exI [of _ 1]) (auto simp: Let_def)
  next
    case False
    then show ?thesis using k
      by (intro exI [of _ "Suc k"]) (auto simp: Let_def replicate_app_Cons_same)
  qed
qed

lemma ask_continue_Done_events:
  "ask_continue inp s = Done s1 \<Longrightarrow>
     \<exists>k\<ge>1. events s1 = events s @ replicate k Prompt"
  using ask_continue_events [of inp s] by auto

lemma full_search_unfold:
  assumes "the_lists (snd (combined_lists s C_EXPANDED_VALUES)) = Inr lsts"
  shows "full_search_of_R_C_L_component_values ev s =
      (if 2 ^ 1024 - 2 ^ 970 \<le> max_number_evaluations lsts then Raised OverflowError s
       else (case (if max_number_evaluations lsts > 25000000 then ask_continue (stdin s) s
                   else Done s) of
               Done s1 \<Rightarrow>
                 best_loop ev (fst (combined_lists s C_EXPANDED_VALUES))
                   (itertools_product lsts) s1
             | r \<Rightarrow> r))"
proof (cases "combined_lists s C_EXPANDED_VALUES")
  case (Pair ids lv)
  with assms have lv: "the_lists lv = Inr lsts" by simp
  have "0 \<le> prod_list (map (\<lambda>lst. int (length lst)) lsts)"
    by (induction lsts) simp_all
  then have nonneg: "0 \<le> max_number_evaluations lsts"
    by (simp add: max_number_evaluations_def fold_mult_length)
  show ?thesis
  proof (cases "2 ^ 1024 - 2 ^ 970 \<le> max_number_evaluations lsts")
    case True
    then have "float_of_int (max_number_evaluations lsts) = Inl OverflowError"
      using nonneg by (simp add: float_of_int_def)
    with True lv show ?thesis
      unfolding full_search_of_R_C_L_component_values_def Pair fst_conv prod.case
      by simp
  next
    case False
    then have "float_of_int (max_number_evaluations lsts) =
        Inr (real_of_int (max_number_evaluations lsts))"
      using nonneg by (simp add: float_of_int_def)
    with False lv show ?thesis
      unfolding full_search_of_R_C_L_component_values_def Pair fst_conv prod.case Let_def
      by simp
  qed
qed

text \<open>
  The confirmation gate for a count that converts to a float. When the count exceeds
  25000000, the driver asks before it enumerates: at least one prompt is recorded, and
  every prompt precedes every evaluation. If the answer is a decline (\<^verbatim>\<open>n\<close> or \<^verbatim>\<open>N\<close>,
  possibly after lines that are no answer), the run ends by \<^verbatim>\<open>exit()\<close>, which is no
  exception, with no combination evaluated and nothing changed but the input consumed.
  If the answer is \<^verbatim>\<open>y\<close> or \<^verbatim>\<open>Y\<close> the enumeration runs. When the count does not
  exceed 25000000, the enumeration runs at once: no prompt is recorded and standard input
  is not read.
\<close>

theorem safety_gate:
  assumes "the_lists (snd (combined_lists s C_EXPANDED_VALUES)) = Inr lsts"
    and "max_number_evaluations lsts < 2 ^ 1024 - 2 ^ 970"
  shows
    "(max_number_evaluations lsts > 25000000 \<longrightarrow>
        (\<exists>k n. 1 \<le> k \<and>
           events (outcome_state (full_search_of_R_C_L_component_values ev s)) =
             events s @ replicate k Prompt @ map Evaluate (take n (itertools_product lsts)))
      \<and> (set pre \<inter> {''y'', ''Y'', ''n'', ''N''} = {} \<and> (r = ''n'' \<or> r = ''N'')
           \<and> stdin s = pre @ r # post \<longrightarrow>
           full_search_of_R_C_L_component_values ev s =
             Exited (s\<lparr>stdin := post,
                       events := events s @ replicate (Suc (length pre)) Prompt\<rparr>))
      \<and> (set pre \<inter> {''y'', ''Y'', ''n'', ''N''} = {} \<and> (r = ''y'' \<or> r = ''Y'')
           \<and> stdin s = pre @ r # post \<longrightarrow>
           full_search_of_R_C_L_component_values ev s =
             best_loop ev (fst (combined_lists s C_EXPANDED_VALUES)) (itertools_product lsts)
               (s\<lparr>stdin := post,
                  events := events s @ replicate (Suc (length pre)) Prompt\<rparr>)))
   \<and> (max_number_evaluations lsts \<le> 25000000 \<longrightarrow>
        full_search_of_R_C_L_component_values ev s =
          best_loop ev (fst (combined_lists s C_EXPANDED_VALUES)) (itertools_product lsts) s
      \<and> stdin (outcome_state (full_search_of_R_C_L_component_values ev s)) = stdin s
      \<and> (\<exists>n. events (outcome_state (full_search_of_R_C_L_component_values ev s)) =
             events s @ map Evaluate (take n (itertools_product lsts))))"
proof -
  let ?ids = "fst (combined_lists s C_EXPANDED_VALUES)"
  let ?cs = "itertools_product lsts"
  have fs: "full_search_of_R_C_L_component_values ev s =
      (case (if max_number_evaluations lsts > 25000000 then ask_continue (stdin s) s
             else Done s) of
         Done s1 \<Rightarrow> best_loop ev ?ids ?cs s1 | r \<Rightarrow> r)"
    using full_search_unfold [OF assms(1), of ev] assms(2) by simp
  have small: "max_number_evaluations lsts \<le> 25000000 \<Longrightarrow>
      full_search_of_R_C_L_component_values ev s = best_loop ev ?ids ?cs s"
    by (simp add: fs)
  have small_io: "max_number_evaluations lsts \<le> 25000000 \<Longrightarrow>
      stdin (outcome_state (full_search_of_R_C_L_component_values ev s)) = stdin s
      \<and> (\<exists>n. events (outcome_state (full_search_of_R_C_L_component_values ev s)) =
             events s @ map Evaluate (take n ?cs))"
    using best_loop_events [of ?cs ev ?ids s] by (auto simp: small)
  have decl: "set pre \<inter> {''y'', ''Y'', ''n'', ''N''} = {} \<Longrightarrow> r = ''n'' \<or> r = ''N''
      \<Longrightarrow> stdin s = pre @ r # post \<Longrightarrow> max_number_evaluations lsts > 25000000 \<Longrightarrow>
      full_search_of_R_C_L_component_values ev s =
        Exited (s\<lparr>stdin := post, events := events s @ replicate (Suc (length pre)) Prompt\<rparr>)"
    using ask_continue_declined [of pre r post s] by (simp add: fs)
  have conf: "set pre \<inter> {''y'', ''Y'', ''n'', ''N''} = {} \<Longrightarrow> r = ''y'' \<or> r = ''Y''
      \<Longrightarrow> stdin s = pre @ r # post \<Longrightarrow> max_number_evaluations lsts > 25000000 \<Longrightarrow>
      full_search_of_R_C_L_component_values ev s =
        best_loop ev ?ids ?cs
          (s\<lparr>stdin := post, events := events s @ replicate (Suc (length pre)) Prompt\<rparr>)"
    using ask_continue_confirmed [of pre r post s] by (simp add: fs)
  have big: "\<exists>k n. 1 \<le> k \<and>
      events (outcome_state (full_search_of_R_C_L_component_values ev s)) =
        events s @ replicate k Prompt @ map Evaluate (take n ?cs)"
    if gt: "max_number_evaluations lsts > 25000000"
  proof -
    from ask_continue_events [of "stdin s" s] obtain k where k: "1 \<le> k"
      "events (outcome_state (ask_continue (stdin s) s)) = events s @ replicate k Prompt"
      by blast
    show ?thesis
    proof (cases "ask_continue (stdin s) s")
      case (Done s1)
      from best_loop_events [of ?cs ev ?ids s1] obtain n where
        "events (outcome_state (best_loop ev ?ids ?cs s1)) = events s1 @ map Evaluate (take n ?cs)"
        by blast
      with k Done gt show ?thesis
        by (intro exI [of _ k] exI [of _ n]) (simp add: fs)
    next
      case (Exited s1)
      with k gt show ?thesis
        by (intro exI [of _ k] exI [of _ 0]) (simp add: fs)
    next
      case (Raised e s1)
      with k gt show ?thesis
        by (intro exI [of _ k] exI [of _ 0]) (simp add: fs)
    qed
  qed
  from small small_io decl conf big show ?thesis by blast
qed

theorem safety_gate_witness:
  "(\<exists>s1. expand_all_components
            ((initial_state [''maybe'', ''n''])
               \<lparr>dic_capacitors :=
                  [(''C1'', new_component ''C1'' None None (Some [1 / 10 ^ 9, 1 / 10 ^ 8, 1 / 10 ^ 7]) 10.0),
                   (''C2'', new_component ''C2'' None (Some [1 / 10 ^ 6, 10 / 10 ^ 6]) None 1.0)]\<rparr>)
          = Done s1
        \<and> full_search_of_R_C_L_component_values circuit_equations s1 =
            Exited (s1\<lparr>stdin := [], events := [Prompt, Prompt]\<rparr>))
   \<and> (\<exists>s1. expand_all_components (initial_state [''n'']) = Done s1
        \<and> stdin (outcome_state (full_search_of_R_C_L_component_values circuit_equations s1))
            = [''n''])"
proof -
  let ?cfg = "(initial_state [''maybe'', ''n''])
               \<lparr>dic_capacitors :=
                  [(''C1'', new_component ''C1'' None None (Some [1 / 10 ^ 9, 1 / 10 ^ 8, 1 / 10 ^ 7]) 10.0),
                   (''C2'', new_component ''C2'' None (Some [1 / 10 ^ 6, 10 / 10 ^ 6]) None 1.0)]\<rparr>"
  have "\<exists>s1 lsts. expand_all_components ?cfg = Done s1
      \<and> the_lists (snd (combined_lists s1 C_EXPANDED_VALUES)) = Inr lsts
      \<and> max_number_evaluations lsts > 25000000
      \<and> stdin s1 = [''maybe'', ''n''] \<and> events s1 = []
      \<and> max_number_evaluations lsts < 2 ^ 1024 - 2 ^ 970"
    by (simp add: expand_all_components_def initial_state_def dic_resistors_0_def
          dic_inductors_0_def new_component_def expand_values_def
          E24_resistor_values_def E12_capacitor_values_def combined_lists_def
          make_list_component_expanded_values_def make_two_combined_list_of_components_def
          less_list_code less_eq_list_code max_number_evaluations_def)
  then obtain s1 lsts where big: "expand_all_components ?cfg = Done s1"
      "the_lists (snd (combined_lists s1 C_EXPANDED_VALUES)) = Inr lsts"
      "max_number_evaluations lsts > 25000000"
      "stdin s1 = [''maybe'', ''n'']" "events s1 = []"
      "max_number_evaluations lsts < 2 ^ 1024 - 2 ^ 970"
    by blast
  have a: "full_search_of_R_C_L_component_values circuit_equations s1 =
            Exited (s1\<lparr>stdin := [], events := [Prompt, Prompt]\<rparr>)"
    using safety_gate [OF big(2) big(6), where pre = "[''maybe'']" and r = "''n''" and post = "[]"
        and ev = circuit_equations] big(3,4,5)
    by (simp add: numeral_2_eq_2)
  have "\<exists>s1 lsts. expand_all_components (initial_state [''n'']) = Done s1
      \<and> the_lists (snd (combined_lists s1 C_EXPANDED_VALUES)) = Inr lsts
      \<and> max_number_evaluations lsts \<le> 25000000
      \<and> stdin s1 = [''n'']"
    by (simp add: expand_all_components_def initial_state_def dic_resistors_0_def
          dic_capacitors_0_def dic_inductors_0_def new_component_def expand_values_def
          E24_resistor_values_def E12_capacitor_values_def combined_lists_def
          make_list_component_expanded_values_def make_two_combined_list_of_components_def
          less_list_code less_eq_list_code max_number_evaluations_def)
  then obtain s2 lsts2 where small: "expand_all_components (initial_state [''n'']) = Done s2"
      "the_lists (snd (combined_lists s2 C_EXPANDED_VALUES)) = Inr lsts2"
      "max_number_evaluations lsts2 \<le> 25000000"
      "stdin s2 = [''n'']"
    by blast
  have small5: "max_number_evaluations lsts2 < 2 ^ 1024 - 2 ^ 970"
    using small(3) by simp
  have "stdin (outcome_state (full_search_of_R_C_L_component_values circuit_equations s2))
            = stdin s2"
    using safety_gate [OF small(2) small5, where ev = circuit_equations] small(3)
    by blast
  then have b: "stdin (outcome_state (full_search_of_R_C_L_component_values circuit_equations s2))
            = [''n'']"
    using small(4) by simp
  from big(1) a small(1) b show ?thesis by blast
qed


subsection \<open>A count beyond the range of a float\<close>

lemma expand_component_map:
  assumes "\<And>i. i \<in> set js \<Longrightarrow> expand_values (c i) series = Inr l"
  shows "expand_component (map (\<lambda>i. (n i, c i)) js) series =
           Done (map (\<lambda>i. (n i, (c i)\<lparr>comp_expanded_values := Some l\<rparr>)) js)"
  using assms by (induction js) (simp_all add: Let_def)

lemma map_snd_sort_const:
  fixes xs :: "('a::linorder \<times> 'b::linorder) list"
  assumes "\<And>x. x \<in> set xs \<Longrightarrow> snd x = v"
  shows "map snd (sort xs) = replicate (length xs) v"
  by (rule replicate_eqI) (use assms in auto)

lemma the_lists_map_Some: "the_lists (map Some ls) = Inr ls"
  by (induction ls) simp_all

lemma max_number_evaluations_replicate:
  "max_number_evaluations (replicate n l @ rest) =
     int (length l) ^ n * max_number_evaluations rest"
  unfolding max_number_evaluations_def fold_mult_length by simp

lemma count_large: "(2::int) ^ 1024 - 2 ^ 970 \<le> 96 ^ 160 * 2"
  by simp

lemma many_resistors_expanded:
  "\<exists>d1 d2 d3.
      expand_all_components (many_resistors_state lines) =
        Done ((many_resistors_state lines)
               \<lparr>dic_resistors := d1, dic_capacitors := d2, dic_inductors := d3\<rparr>)
    \<and> length d1 = 160
    \<and> (\<forall>p\<in>set d1. comp_expanded_values (snd p) =
          Some (concat (map (\<lambda>scale. map (\<lambda>val. val * scale) E24_resistor_values)
                          [100, 1000, 10000, 100000])))
    \<and> map snd (make_list_component_expanded_values d2 C_EXPANDED_VALUES) =
        [Some [1 / 10 ^ 6], Some [1 / 10 ^ 6, 10 / 10 ^ 6]]
    \<and> map snd (make_list_component_expanded_values d3 C_EXPANDED_VALUES) = [Some [1 / 10 ^ 3]]"
proof -
  let ?l = "concat (map (\<lambda>scale. map (\<lambda>val. val * scale) E24_resistor_values)
                          [100, 1000, 10000, 100000])"
  let ?n = resistor_name
  let ?c = "\<lambda>i. new_component (resistor_name i) None None (Some [100, 1000, 10000, 100000]) 1.0"
  let ?d1 = "map (\<lambda>i. (?n i, (?c i)\<lparr>comp_expanded_values := Some ?l\<rparr>)) [0..<160]"
  have r: "expand_component (dic_resistors (many_resistors_state lines))
             (Some E24_resistor_values) = Done ?d1"
  proof -
    have "expand_component dic_resistors_many (Some E24_resistor_values) = Done ?d1"
      unfolding dic_resistors_many_def
      by (rule expand_component_map) (simp add: expand_values_def new_component_def)
    then show ?thesis by (simp add: many_resistors_state_def)
  qed
  have c: "\<exists>d2. expand_component (dic_capacitors (many_resistors_state lines))
             (Some E12_capacitor_values) = Done d2
      \<and> map snd (make_list_component_expanded_values d2 C_EXPANDED_VALUES) =
        [Some [1 / 10 ^ 6], Some [1 / 10 ^ 6, 10 / 10 ^ 6]]"
    by (simp add: many_resistors_state_def initial_state_def dic_capacitors_0_def
          new_component_def expand_values_def make_list_component_expanded_values_def
          less_list_code less_eq_list_code)
  have l: "\<exists>d3. expand_component (dic_inductors (many_resistors_state lines)) None = Done d3
      \<and> map snd (make_list_component_expanded_values d3 C_EXPANDED_VALUES) = [Some [1 / 10 ^ 3]]"
    by (simp add: many_resistors_state_def initial_state_def dic_inductors_0_def
          new_component_def expand_values_def make_list_component_expanded_values_def
          less_list_code less_eq_list_code)
  from c obtain d2 where d2: "expand_component (dic_capacitors (many_resistors_state lines))
             (Some E12_capacitor_values) = Done d2"
      "map snd (make_list_component_expanded_values d2 C_EXPANDED_VALUES) =
        [Some [1 / 10 ^ 6], Some [1 / 10 ^ 6, 10 / 10 ^ 6]]"
    by (elim exE conjE) (rule that)
  from l obtain d3 where d3: "expand_component (dic_inductors (many_resistors_state lines)) None = Done d3"
      "map snd (make_list_component_expanded_values d3 C_EXPANDED_VALUES) = [Some [1 / 10 ^ 3]]"
    by (elim exE conjE) (rule that)
  have e: "expand_all_components (many_resistors_state lines) =
        Done ((many_resistors_state lines)
               \<lparr>dic_resistors := ?d1, dic_capacitors := d2, dic_inductors := d3\<rparr>)"
    unfolding expand_all_components_def r d2(1) d3(1) by simp
  have n: "length ?d1 = 160" by simp
  have a: "\<forall>p\<in>set ?d1. comp_expanded_values (snd p) = Some ?l" by simp
  show ?thesis
    apply (rule exI [of _ ?d1], rule exI [of _ d2], rule exI [of _ d3])
    apply (intro conjI)
        apply (rule e)
       apply (rule n)
      apply (rule a)
     apply (rule d2(2))
    apply (rule d3(2))
    done
qed

lemma the_lists_replicate_append:
  "the_lists rest = Inr r \<Longrightarrow> the_lists (replicate n (Some l) @ rest) = Inr (replicate n l @ r)"
  by (induction n) simp_all

text \<open>
  Claim C7: whenever the count exceeds 25000000 the driver asks for a confirmation before
  it enumerates. The program fails to do so for a count at or beyond the range of a float.
  With 160 resistors of four scales each (96 values each) and the capacitors and the
  inductor as shipped, the count is \<open>96 ^ 160 * 2\<close>, far above 25000000; the statement
  \<^verbatim>\<open>five_perc = int(max_number_evaluations / 20.0)\<close>, which precedes the test of the
  count, raises \<^verbatim>\<open>OverflowError\<close>. The run ends with that exception: no confirmation is
  asked, the answer waiting on standard input is not read, and nothing is evaluated.
\<close>

theorem safety_gate_overflow:
  "let s0 = many_resistors_state [''y''];
       s1 = outcome_state (expand_all_components s0);
       e96 = concat (map (\<lambda>scale. map (\<lambda>val. val * scale) E24_resistor_values)
                       [100, 1000, 10000, 100000]);
       lsts = replicate 160 e96 @ [[1 / 10 ^ 6], [1 / 10 ^ 6, 10 / 10 ^ 6], [1 / 10 ^ 3]]
   in consistency_testing_of_fixed_parameters s0 = Inr True
    \<and> expand_all_components s0 = Done s1
    \<and> the_lists (snd (combined_lists s1 C_EXPANDED_VALUES)) = Inr lsts
    \<and> length e96 = 96
    \<and> max_number_evaluations lsts = 96 ^ 160 * 2
    \<and> 25000000 < max_number_evaluations lsts
    \<and> full_search_of_R_C_L_component_values circuit_equations s1 = Raised OverflowError s1
    \<and> stdin s1 = [''y''] \<and> events s1 = []
    \<and> main circuit_equations s0 = Raised OverflowError s1"
proof -
  let ?s0 = "many_resistors_state [''y'']"
  let ?e96 = "concat (map (\<lambda>scale. map (\<lambda>val. val * scale) E24_resistor_values)
                       [100, 1000, 10000, 100000])"
  let ?rest = "[[1 / 10 ^ 6], [1 / 10 ^ 6, 10 / 10 ^ 6], [1 / 10 ^ 3 :: real]]"
  let ?lsts = "replicate 160 ?e96 @ ?rest"
  obtain d1 d2 d3 where
    e: "expand_all_components ?s0 =
        Done (?s0\<lparr>dic_resistors := d1, dic_capacitors := d2, dic_inductors := d3\<rparr>)"
    and n: "length d1 = 160"
    and a: "\<forall>p\<in>set d1. comp_expanded_values (snd p) = Some ?e96"
    and c: "map snd (make_list_component_expanded_values d2 C_EXPANDED_VALUES) =
        [Some [1 / 10 ^ 6], Some [1 / 10 ^ 6, 10 / 10 ^ 6]]"
    and l: "map snd (make_list_component_expanded_values d3 C_EXPANDED_VALUES) =
        [Some [1 / 10 ^ 3]]"
    using many_resistors_expanded [of "[''y'']"] by (elim exE conjE) (rule that)
  define s1 where "s1 = ?s0\<lparr>dic_resistors := d1, dic_capacitors := d2, dic_inductors := d3\<rparr>"
  have e': "expand_all_components ?s0 = Done s1" using e by (simp add: s1_def)
  have os: "outcome_state (expand_all_components ?s0) = s1" by (simp add: e')
  have r: "map snd (make_list_component_expanded_values d1 C_EXPANDED_VALUES) =
      replicate 160 (Some ?e96)"
    unfolding make_list_component_expanded_values_def n [symmetric]
    using a by (subst map_snd_sort_const [where v = "Some ?e96"]) auto
  have sn: "snd (combined_lists s1 C_EXPANDED_VALUES) =
      replicate 160 (Some ?e96) @ [Some [1 / 10 ^ 6], Some [1 / 10 ^ 6, 10 / 10 ^ 6]]
        @ [Some [1 / 10 ^ 3]]"
  proof -
    have dr: "dic_resistors s1 = d1" "dic_capacitors s1 = d2" "dic_inductors s1 = d3"
      by (simp_all add: s1_def)
    show ?thesis
      unfolding combined_lists_def Let_def make_two_combined_list_of_components_def snd_conv
        dr r c l ..
  qed
  have tl: "the_lists (snd (combined_lists s1 C_EXPANDED_VALUES)) = Inr ?lsts"
    unfolding sn by (simp add: the_lists_replicate_append)
  have len: "length ?e96 = 96" by (simp add: E24_resistor_values_def)
  have cnt: "max_number_evaluations ?lsts = 96 ^ 160 * 2"
    unfolding max_number_evaluations_replicate len
    by (simp add: max_number_evaluations_def)
  have big: "25000000 < max_number_evaluations ?lsts" unfolding cnt by simp
  have ov: "2 ^ 1024 - 2 ^ 970 \<le> max_number_evaluations ?lsts"
    unfolding cnt by (rule count_large)
  have fs: "full_search_of_R_C_L_component_values circuit_equations s1 = Raised OverflowError s1"
    unfolding full_search_unfold [OF tl] using ov by simp
  have io: "stdin s1 = [''y''] \<and> events s1 = []"
    by (simp add: s1_def many_resistors_state_def initial_state_def)
  have ct: "consistency_testing_of_fixed_parameters ?s0 = Inr True"
    by (simp add: consistency_testing_of_fixed_parameters_def many_resistors_state_def
          initial_state_def dic_in_fix_param_0_def dic_target_calc_values_0_def new_target_def
          get_dic_in_fix_param_def get_dic_target_calc_values_def process_inner_dic_def)
  have ps: "print_specification ?s0 = Inr ()"
    by (simp add: print_specification_def percent_f_def many_resistors_state_def
          initial_state_def dic_in_fix_param_0_def dic_target_calc_values_0_def new_target_def)
  have m: "main circuit_equations ?s0 = Raised OverflowError s1"
    unfolding main_def ps ct e' by (simp add: fs)
  show ?thesis
    unfolding Let_def os
    apply (intro conjI)
             apply (rule ct)
            apply (rule e')
           apply (rule tl)
          apply (rule len)
         apply (rule cnt)
        apply (rule big)
       apply (rule fs)
      apply (rule io [THEN conjunct1])
     apply (rule io [THEN conjunct2])
    apply (rule m)
    done
qed

section \<open>States that an evaluation cannot tell apart\<close>

lemma agree_dom:
  "agree K s t \<Longrightarrow> (map_of (comps kd s) k = None) = (map_of (comps kd t) k = None)"
  by (simp add: agree_def)

lemma agree_view:
  "agree K s t \<Longrightarrow> route k \<noteq> Some kd \<or> k \<notin> K \<Longrightarrow> curr_view s kd k = curr_view t kd k"
  by (simp add: agree_def)

lemma agreeI:
  assumes "dic_in_fix_param s = dic_in_fix_param t" "target_values s = target_values t"
    "\<And>kd k. (map_of (comps kd s) k = None) = (map_of (comps kd t) k = None)"
    "\<And>kd k. route k \<noteq> Some kd \<or> k \<notin> K \<Longrightarrow> curr_view s kd k = curr_view t kd k"
  shows "agree K s t"
  unfolding agree_def using assms by blast

lemma agree_trans:
  assumes "agree K s t" "agree K t u"
  shows "agree K s u"
proof (rule agreeI)
  show "dic_in_fix_param s = dic_in_fix_param u" "target_values s = target_values u"
    using assms by (simp_all add: agree_def)
  show "(map_of (comps kd s) k = None) = (map_of (comps kd u) k = None)" for kd k
    using agree_dom [OF assms(1), of kd k] agree_dom [OF assms(2), of kd k] by simp
  show "curr_view s kd k = curr_view u kd k" if "route k \<noteq> Some kd \<or> k \<notin> K" for kd k
    using agree_view [OF assms(1) that] agree_view [OF assms(2) that] by simp
qed


lemma agree_refl: "agree K s s"
  by (simp add: agree_def)

lemma agree_sym: "agree K s t \<Longrightarrow> agree K t s"
  by (simp add: agree_def)

lemma agree_mono: "agree K s t \<Longrightarrow> K \<subseteq> K' \<Longrightarrow> agree K' s t"
  unfolding agree_def by blast

lemma set_fields_step:
  "map_ids_and_component_combination_vals__set_fields (ident # ids) (v # vs) f s =
     (case route ident of
        None \<Rightarrow> Raised ValueError s
      | Some kd \<Rightarrow>
          (case map_of (comps kd s) ident of
             None \<Rightarrow> Raised KeyError s
           | Some _ \<Rightarrow>
               map_ids_and_component_combination_vals__set_fields ids vs f
                 (put_comps kd (AList.map_entry ident (set_value_field f v) (comps kd s)) s)))"
  by (auto simp: route_def split: option.splits)

lemma comps_put_comps:
  "comps kd' (put_comps kd d s) = (if kd' = kd then d else comps kd' s)"
  by (cases kd; cases kd'; simp)

lemma put_comps_fix: "dic_in_fix_param (put_comps kd d s) = dic_in_fix_param s"
  by (cases kd) simp_all

lemma put_comps_targets: "dic_target_calc_values (put_comps kd d s) = dic_target_calc_values s"
  by (cases kd) simp_all

lemma target_values_cong:
  assumes "dic_target_calc_values s = dic_target_calc_values t"
  shows "target_values s = target_values t"
  unfolding target_values_def get_dic_target_calc_values_def assms ..

lemma put_comps_target_values: "target_values (put_comps kd d s) = target_values s"
  by (rule target_values_cong) (rule put_comps_targets)

lemmas put_comps_frame = put_comps_fix put_comps_targets put_comps_target_values

lemma map_of_map_entry_eq:
  "map_of (AList.map_entry k g d) k' = (if k' = k then map_option g (map_of d k') else map_of d k')"
  by (induction d) auto

lemma comp_curr_set_value_field:
  "comp_curr_value (set_value_field f v c) =
     (if f = C_CURR_VALUE then Some v else comp_curr_value c)"
  by (cases f) simp_all

lemma curr_view_write_same:
  "map_of (comps kd s) ident \<noteq> None \<Longrightarrow>
   curr_view (put_comps kd (AList.map_entry ident (set_value_field C_CURR_VALUE v) (comps kd s)) s)
     kd ident = Some (Some v)"
  by (auto simp: curr_view_def comps_put_comps map_of_map_entry_eq)

lemma curr_view_write_other:
  "\<not> (kd' = kd \<and> k = ident) \<Longrightarrow>
   curr_view (put_comps kd (AList.map_entry ident g (comps kd s)) s) kd' k = curr_view s kd' k"
  by (auto simp: curr_view_def comps_put_comps map_of_map_entry_eq)

lemma curr_view_write_other_field:
  "f \<noteq> C_CURR_VALUE \<Longrightarrow>
   curr_view (put_comps kd (AList.map_entry ident (set_value_field f v) (comps kd s)) s) kd' k
     = curr_view s kd' k"
  by (cases f)
     (auto simp: curr_view_def comps_put_comps map_of_map_entry_eq option.map_comp comp_def)

lemma dom_write:
  "(map_of (comps kd' (put_comps kd (AList.map_entry ident g (comps kd s)) s)) k = None) =
   (map_of (comps kd' s) k = None)"
  by (simp add: comps_put_comps map_of_map_entry_eq)

lemma agree_write_both:
  assumes "agree K s t" "route ident = Some kd" "map_of (comps kd s) ident \<noteq> None"
  shows "agree (K - {ident})
           (put_comps kd (AList.map_entry ident (set_value_field C_CURR_VALUE v) (comps kd s)) s)
           (put_comps kd (AList.map_entry ident (set_value_field C_CURR_VALUE v) (comps kd t)) t)"
proof -
  have kt: "map_of (comps kd t) ident \<noteq> None"
    using agree_dom [OF assms(1), of kd ident] assms(3) by simp
  have view: "\<And>kd' k. route k \<noteq> Some kd' \<or> k \<notin> K \<Longrightarrow> curr_view s kd' k = curr_view t kd' k"
    using assms(1) by (simp add: agree_def)
  show ?thesis
    unfolding agree_def
  proof (intro conjI allI impI)
    fix kd' k
    assume h: "route k \<noteq> Some kd' \<or> k \<notin> K - {ident}"
    show "curr_view (put_comps kd (AList.map_entry ident (set_value_field C_CURR_VALUE v) (comps kd s)) s) kd' k
        = curr_view (put_comps kd (AList.map_entry ident (set_value_field C_CURR_VALUE v) (comps kd t)) t) kd' k"
    proof (cases "kd' = kd \<and> k = ident")
      case True
      then show ?thesis
        using curr_view_write_same [OF assms(3), of v] curr_view_write_same [OF kt, of v] by simp
    next
      case False
      then have "route k \<noteq> Some kd' \<or> k \<notin> K" using h assms(2) by auto
      then have "curr_view s kd' k = curr_view t kd' k" by (rule view)
      then show ?thesis
        by (simp only: curr_view_write_other [OF False])
    qed
  qed (use assms(1) in \<open>simp_all add: put_comps_frame dom_write agree_def\<close>)
qed

lemma agree_write_one:
  assumes "route ident = Some kd"
  shows "agree (insert ident K) s
           (put_comps kd (AList.map_entry ident g (comps kd s)) s)"
  unfolding agree_def
proof (intro conjI allI impI)
  fix kd' k
  assume h: "route k \<noteq> Some kd' \<or> k \<notin> insert ident K"
  then have "\<not> (kd' = kd \<and> k = ident)" using assms by auto
  then show "curr_view s kd' k =
      curr_view (put_comps kd (AList.map_entry ident g (comps kd s)) s) kd' k"
    by (rule curr_view_write_other [symmetric])
qed (simp_all add: put_comps_frame dom_write)




lemma set_fields_sync:
  "agree K s t \<Longrightarrow>
   map_ids_and_component_combination_vals__set_fields ids c C_CURR_VALUE s = Done s' \<Longrightarrow>
   \<exists>t'. map_ids_and_component_combination_vals__set_fields ids c C_CURR_VALUE t = Done t'
        \<and> agree (K - fst ` set (zip ids c)) s' t'"
proof (induction ids arbitrary: c s t K)
  case Nil
  then show ?case by simp
next
  case (Cons ident ids)
  show ?case
  proof (cases c)
    case Nil
    with Cons.prems show ?thesis by simp
  next
    case (Cons v vs)
    from Cons.prems(2) obtain kd where kd: "route ident = Some kd"
      by (auto simp: Cons set_fields_step simp del: map_ids_and_component_combination_vals__set_fields.simps split: option.splits)
    from Cons.prems(2) kd have ks: "map_of (comps kd s) ident \<noteq> None"
      by (auto simp: Cons set_fields_step simp del: map_ids_and_component_combination_vals__set_fields.simps split: option.splits)
    with Cons.prems(1) have kt: "map_of (comps kd t) ident \<noteq> None"
      using agree_dom [of K s t kd ident] by simp
    let ?s1 = "put_comps kd (AList.map_entry ident (set_value_field C_CURR_VALUE v) (comps kd s)) s"
    let ?t1 = "put_comps kd (AList.map_entry ident (set_value_field C_CURR_VALUE v) (comps kd t)) t"
    have run_s: "map_ids_and_component_combination_vals__set_fields ids vs C_CURR_VALUE ?s1 = Done s'"
      using Cons.prems(2) kd ks
      by (auto simp: Cons set_fields_step simp del: map_ids_and_component_combination_vals__set_fields.simps)
    have ag1: "agree (K - {ident}) ?s1 ?t1"
      using agree_write_both [OF Cons.prems(1) kd ks] .
    from Cons.IH [OF ag1 run_s] obtain t' where
      t': "map_ids_and_component_combination_vals__set_fields ids vs C_CURR_VALUE ?t1 = Done t'"
          "agree (K - {ident} - fst ` set (zip ids vs)) s' t'"
      by blast
    have "map_ids_and_component_combination_vals__set_fields (ident # ids) c C_CURR_VALUE t = Done t'"
      using t'(1) kd kt
      by (auto simp: Cons set_fields_step simp del: map_ids_and_component_combination_vals__set_fields.simps)
    moreover have "agree (K - fst ` set (zip (ident # ids) c)) s' t'"
    proof -
      have "K - fst ` set (zip (ident # ids) c) = K - {ident} - fst ` set (zip ids vs)"
        unfolding Cons by auto
      then show ?thesis using t'(2) by (simp only:)
    qed
    ultimately show ?thesis by blast
  qed
qed




lemma set_fields_agree_self:
  "map_ids_and_component_combination_vals__set_fields ids c f s = Done s' \<Longrightarrow>
   agree (K \<union> set ids) s s'"
proof (induction ids arbitrary: c s K)
  case Nil
  then show ?case by (simp add: agree_refl)
next
  case (Cons ident ids)
  show ?case
  proof (cases c)
    case Nil
    with Cons.prems show ?thesis by (simp add: agree_refl)
  next
    case (Cons v vs)
    from Cons.prems obtain kd where kd: "route ident = Some kd"
      by (auto simp: Cons set_fields_step simp del: map_ids_and_component_combination_vals__set_fields.simps split: option.splits)
    from Cons.prems kd have ks: "map_of (comps kd s) ident \<noteq> None"
      by (auto simp: Cons set_fields_step simp del: map_ids_and_component_combination_vals__set_fields.simps split: option.splits)
    let ?s1 = "put_comps kd (AList.map_entry ident (set_value_field f v) (comps kd s)) s"
    have run_s: "map_ids_and_component_combination_vals__set_fields ids vs f ?s1 = Done s'"
      using Cons.prems kd ks
      by (auto simp: Cons set_fields_step simp del: map_ids_and_component_combination_vals__set_fields.simps)
    have e1: "K \<union> set (ident # ids) = insert ident (K \<union> set ids)" by auto
    have e2: "K \<union> set (ident # ids) = insert ident K \<union> set ids" by auto
    have a1: "agree (K \<union> set (ident # ids)) s ?s1"
      unfolding e1 by (rule agree_write_one [OF kd])
    have a2: "agree (K \<union> set (ident # ids)) ?s1 s'"
      unfolding e2 by (rule Cons.IH [OF run_s])
    show ?thesis by (rule agree_trans [OF a1 a2])
  qed
qed

section \<open>One step of a pass\<close>

lemma process_inner_dic_view:
  "process_inner_dic m f =
     (case map_option f m of None \<Rightarrow> Inl ValueError | Some None \<Rightarrow> Inl ValueError
      | Some (Some v) \<Rightarrow> Inr v)"
  by (simp add: process_inner_dic_def split: option.splits)

lemma getters_curr_view:
  "get_dic_resistors s ident comp_curr_value =
     (case curr_view s Resistor ident of None \<Rightarrow> Inl ValueError | Some None \<Rightarrow> Inl ValueError
      | Some (Some v) \<Rightarrow> Inr v)"
  "get_dic_capacitors s ident comp_curr_value =
     (case curr_view s Capacitor ident of None \<Rightarrow> Inl ValueError | Some None \<Rightarrow> Inl ValueError
      | Some (Some v) \<Rightarrow> Inr v)"
  "get_dic_inductors s ident comp_curr_value =
     (case curr_view s Inductor ident of None \<Rightarrow> Inl ValueError | Some None \<Rightarrow> Inl ValueError
      | Some (Some v) \<Rightarrow> Inr v)"
  by (simp_all add: get_dic_resistors_def get_dic_capacitors_def get_dic_inductors_def
        curr_view_def process_inner_dic_view)

lemma run_evaluator_agree:
  assumes "agree {} s t"
  shows "run_evaluator ev s = run_evaluator ev t"
proof -
  have v: "curr_view s kd k = curr_view t kd k" for kd k
    using agree_view [OF assms, of k kd] by simp
  have f: "get_dic_in_fix_param s = get_dic_in_fix_param t"
    using assms by (auto simp: agree_def get_dic_in_fix_param_def)
  show ?thesis
    unfolding run_evaluator_def getters_curr_view v f ..
qed

lemma run_evaluator_events [simp]:
  "run_evaluator ev (s\<lparr>events := es\<rparr>) = run_evaluator ev s"
proof -
  have "get_dic_in_fix_param (s\<lparr>events := es\<rparr>) = get_dic_in_fix_param s"
    by (rule ext) (simp add: get_dic_in_fix_param_def)
  then show ?thesis
    by (simp add: run_evaluator_def get_dic_resistors_def
        get_dic_capacitors_def get_dic_inductors_def)
qed

lemma combination_outputs_alt:
  "combination_outputs ev ids s c =
     (case map_ids_and_component_combination_vals__set_fields ids c C_CURR_VALUE s of
        Done s1 \<Rightarrow> (case run_evaluator ev s1 of Inr out \<Rightarrow> Some out | Inl e \<Rightarrow> None)
      | Exited s1 \<Rightarrow> None
      | Raised e s1 \<Rightarrow> None)"
  unfolding combination_outputs_def run_evaluator_def ..

lemma agree_same_parts:
  assumes "dic_in_fix_param s = dic_in_fix_param t" "target_values s = target_values t"
    "dic_resistors s = dic_resistors t" "dic_capacitors s = dic_capacitors t"
    "dic_inductors s = dic_inductors t"
  shows "agree K s t"
proof (rule agreeI)
  have c: "comps kd s = comps kd t" for kd using assms by (cases kd) simp_all
  show "(map_of (comps kd s) k = None) = (map_of (comps kd t) k = None)" for kd k
    by (simp add: c)
  show "curr_view s kd k = curr_view t kd k" for kd k
    by (simp add: curr_view_def c)
qed (use assms in simp_all)

text \<open>Reading a target after a write to a target.\<close>

lemma target_sel_set_target_field:
  "tcv_target_value (set_target_field fld v t) = tcv_target_value t"
  "tcv_calc_value (set_target_field fld v t) =
     (if fld = C_CALC_VALUE then Some v else tcv_calc_value t)"
  by (cases fld; simp)+

lemma set_dic_target_Done:
  assumes "set_dic_target_calc_values ident fld v s = Done s'"
  shows "dic_in_fix_param s' = dic_in_fix_param s" "dic_resistors s' = dic_resistors s"
    "dic_capacitors s' = dic_capacitors s" "dic_inductors s' = dic_inductors s"
    "g_best_prev_error s' = g_best_prev_error s" "g_worst_prev_error s' = g_worst_prev_error s"
    "get_dic_target_calc_values s' k tcv_target_value = get_dic_target_calc_values s k tcv_target_value"
    "get_dic_target_calc_values s' k tcv_calc_value =
       (if k = ident \<and> fld = C_CALC_VALUE then Inr v
        else get_dic_target_calc_values s k tcv_calc_value)"
    "map_of (dic_target_calc_values s) ident \<noteq> None"
proof -
  from assms obtain t0 where
    t0: "map_of (dic_target_calc_values s) ident = Some t0" and
    s': "s' = s\<lparr>dic_target_calc_values :=
                  AList.map_entry ident (set_target_field fld v) (dic_target_calc_values s)\<rparr>"
    by (auto simp: set_dic_target_calc_values_def split: option.splits)
  show "dic_in_fix_param s' = dic_in_fix_param s" "dic_resistors s' = dic_resistors s"
    "dic_capacitors s' = dic_capacitors s" "dic_inductors s' = dic_inductors s"
    "g_best_prev_error s' = g_best_prev_error s" "g_worst_prev_error s' = g_worst_prev_error s"
    by (simp_all add: s')
  show "map_of (dic_target_calc_values s) ident \<noteq> None" by (simp add: t0)
  show "get_dic_target_calc_values s' k tcv_target_value =
      get_dic_target_calc_values s k tcv_target_value"
  proof (cases "k = ident")
    case True
    then show ?thesis
      by (simp add: s' get_dic_target_calc_values_def map_of_map_entry_eq t0
            process_inner_dic_def target_sel_set_target_field)
  next
    case False
    then show ?thesis
      by (simp add: s' get_dic_target_calc_values_def map_of_map_entry_eq)
  qed
  show "get_dic_target_calc_values s' k tcv_calc_value =
       (if k = ident \<and> fld = C_CALC_VALUE then Inr v
        else get_dic_target_calc_values s k tcv_calc_value)"
  proof (cases "k = ident")
    case True
    then show ?thesis
      by (simp add: s' get_dic_target_calc_values_def map_of_map_entry_eq t0
            process_inner_dic_def target_sel_set_target_field)
  next
    case False
    then show ?thesis
      by (simp add: s' get_dic_target_calc_values_def map_of_map_entry_eq)
  qed
qed

lemma set_dic_target_cases:
  "(\<exists>s'. set_dic_target_calc_values ident fld v s = Done s')
   \<or> set_dic_target_calc_values ident fld v s = Raised ValueError s"
  by (simp add: set_dic_target_calc_values_def split: option.splits)

lemma target_values_get:
  "target_values s = Some (t_lo, t_hi) \<longleftrightarrow>
     get_dic_target_calc_values s ''V_low_threshold'' tcv_target_value = Inr t_lo
   \<and> get_dic_target_calc_values s ''V_high_threshold'' tcv_target_value = Inr t_hi"
  by (auto simp: target_values_def split: sum.splits)

lemma target_values_eqI:
  assumes "\<And>k. get_dic_target_calc_values s' k tcv_target_value =
               get_dic_target_calc_values s k tcv_target_value"
  shows "target_values s' = target_values s"
  unfolding target_values_def assms ..

lemma read_targets_and_obtained_iff:
  "read_targets_and_obtained s = Inr (t_lo, t_hi, o_lo, o_hi) \<longleftrightarrow>
     target_values s = Some (t_lo, t_hi)
   \<and> get_dic_target_calc_values s ''V_low_threshold'' tcv_calc_value = Inr o_lo
   \<and> get_dic_target_calc_values s ''V_high_threshold'' tcv_calc_value = Inr o_hi"
  by (auto simp: read_targets_and_obtained_def target_values_get split: sum.splits)

lemma calc_evaluation_Done:
  assumes "calc_evaluation_of_circuit_equations ev s = Done s2"
  shows "\<exists>o_lo o_hi. run_evaluator ev s = Inr (o_lo, o_hi)
      \<and> get_dic_target_calc_values s2 ''V_low_threshold'' tcv_calc_value = Inr o_lo
      \<and> get_dic_target_calc_values s2 ''V_high_threshold'' tcv_calc_value = Inr o_hi"
    and "target_values s2 = target_values s"
    and "dic_in_fix_param s2 = dic_in_fix_param s" "dic_resistors s2 = dic_resistors s"
      "dic_capacitors s2 = dic_capacitors s" "dic_inductors s2 = dic_inductors s"
      "g_best_prev_error s2 = g_best_prev_error s" "g_worst_prev_error s2 = g_worst_prev_error s"
proof -
  from assms obtain o_lo o_hi s1 where
    ev: "run_evaluator ev s = Inr (o_lo, o_hi)" and
    w1: "set_dic_target_calc_values ''V_low_threshold'' C_CALC_VALUE o_lo s = Done s1" and
    w2: "set_dic_target_calc_values ''V_high_threshold'' C_CALC_VALUE o_hi s1 = Done s2"
    by (auto simp: calc_evaluation_of_circuit_equations_def run_evaluator_def
          split: sum.splits outcome.splits)
  note a = set_dic_target_Done [OF w1] and b = set_dic_target_Done [OF w2]
  show "\<exists>o_lo o_hi. run_evaluator ev s = Inr (o_lo, o_hi)
      \<and> get_dic_target_calc_values s2 ''V_low_threshold'' tcv_calc_value = Inr o_lo
      \<and> get_dic_target_calc_values s2 ''V_high_threshold'' tcv_calc_value = Inr o_hi"
    using ev by (simp add: a(8) b(8))
  show "target_values s2 = target_values s"
    by (rule target_values_eqI) (simp add: a(7) b(7))
  show "dic_in_fix_param s2 = dic_in_fix_param s" "dic_resistors s2 = dic_resistors s"
      "dic_capacitors s2 = dic_capacitors s" "dic_inductors s2 = dic_inductors s"
      "g_best_prev_error s2 = g_best_prev_error s" "g_worst_prev_error s2 = g_worst_prev_error s"
    by (simp_all add: a b)
qed


lemma calc_distance_error_best_Done:
  assumes "calc_distance_error_best s = Done (b, s3)"
  shows "\<exists>t_lo t_hi o_lo o_hi. read_targets_and_obtained s = Inr (t_lo, t_hi, o_lo, o_hi)
      \<and> b = (distance_error t_lo t_hi o_lo o_hi < g_best_prev_error s)
      \<and> g_best_prev_error s3 = min (g_best_prev_error s) (distance_error t_lo t_hi o_lo o_hi)"
    and "target_values s3 = target_values s"
    and "dic_in_fix_param s3 = dic_in_fix_param s" "dic_resistors s3 = dic_resistors s"
      "dic_capacitors s3 = dic_capacitors s" "dic_inductors s3 = dic_inductors s"
      "g_worst_prev_error s3 = g_worst_prev_error s"
proof -
  from assms obtain t_lo t_hi o_lo o_hi where
    rd: "read_targets_and_obtained s = Inr (t_lo, t_hi, o_lo, o_hi)"
    by (auto simp: calc_distance_error_best_def split: sum.splits)
  let ?e = "distance_error t_lo t_hi o_lo o_hi"
  have goal: "(b = (?e < g_best_prev_error s)
      \<and> g_best_prev_error s3 = min (g_best_prev_error s) ?e)
      \<and> target_values s3 = target_values s
      \<and> dic_in_fix_param s3 = dic_in_fix_param s \<and> dic_resistors s3 = dic_resistors s
      \<and> dic_capacitors s3 = dic_capacitors s \<and> dic_inductors s3 = dic_inductors s
      \<and> g_worst_prev_error s3 = g_worst_prev_error s"
  proof (cases "?e < g_best_prev_error s")
    case False
    with assms rd have "b = False" "s3 = s"
      by (auto simp: calc_distance_error_best_def Let_def get_best_prev_error_def)
    with False show ?thesis by simp
  next
    case True
    let ?s0 = "set_best_prev_error ?e s"
    from assms rd True obtain s1 where
      w1: "set_dic_target_calc_values ''V_low_threshold'' T_BEST_VALUE o_lo ?s0 = Done s1" and
      w2: "set_dic_target_calc_values ''V_high_threshold'' T_BEST_VALUE o_hi s1 = Done s3" and
      b: "b = True"
      by (auto simp: calc_distance_error_best_def Let_def get_best_prev_error_def
            split: outcome.splits)
    note a = set_dic_target_Done [OF w1] and c = set_dic_target_Done [OF w2]
    have tv: "target_values s3 = target_values ?s0"
      by (rule target_values_eqI) (simp add: a(7) c(7))
    have tv0: "target_values ?s0 = target_values s"
      by (rule target_values_cong) (simp add: set_best_prev_error_def)
    have fr: "g_best_prev_error ?s0 = ?e" "dic_in_fix_param ?s0 = dic_in_fix_param s"
      "dic_resistors ?s0 = dic_resistors s" "dic_capacitors ?s0 = dic_capacitors s"
      "dic_inductors ?s0 = dic_inductors s" "g_worst_prev_error ?s0 = g_worst_prev_error s"
      by (simp_all add: set_best_prev_error_def)
    show ?thesis
      using True b by (simp add: a c tv tv0 fr)
  qed
  show "\<exists>t_lo t_hi o_lo o_hi. read_targets_and_obtained s = Inr (t_lo, t_hi, o_lo, o_hi)
      \<and> b = (distance_error t_lo t_hi o_lo o_hi < g_best_prev_error s)
      \<and> g_best_prev_error s3 = min (g_best_prev_error s) (distance_error t_lo t_hi o_lo o_hi)"
    using rd goal by blast
  show "target_values s3 = target_values s"
    and "dic_in_fix_param s3 = dic_in_fix_param s" "dic_resistors s3 = dic_resistors s"
      "dic_capacitors s3 = dic_capacitors s" "dic_inductors s3 = dic_inductors s"
      "g_worst_prev_error s3 = g_worst_prev_error s"
    using goal by simp_all
qed

lemma calc_absolute_distance_error_worst_Done:
  assumes "calc_absolute_distance_error_worst s = Done (b, s3)"
  shows "\<exists>t_lo t_hi o_lo o_hi. read_targets_and_obtained s = Inr (t_lo, t_hi, o_lo, o_hi)
      \<and> b = (absolute_distance_error t_lo t_hi o_lo o_hi > g_worst_prev_error s)
      \<and> g_worst_prev_error s3 =
          max (g_worst_prev_error s) (absolute_distance_error t_lo t_hi o_lo o_hi)"
    and "target_values s3 = target_values s"
    and "dic_in_fix_param s3 = dic_in_fix_param s" "dic_resistors s3 = dic_resistors s"
      "dic_capacitors s3 = dic_capacitors s" "dic_inductors s3 = dic_inductors s"
      "g_best_prev_error s3 = g_best_prev_error s"
proof -
  from assms obtain t_lo t_hi o_lo o_hi where
    rd: "read_targets_and_obtained s = Inr (t_lo, t_hi, o_lo, o_hi)"
    by (auto simp: calc_absolute_distance_error_worst_def split: sum.splits)
  let ?e = "absolute_distance_error t_lo t_hi o_lo o_hi"
  have goal: "(b = (?e > g_worst_prev_error s)
      \<and> g_worst_prev_error s3 = max (g_worst_prev_error s) ?e)
      \<and> target_values s3 = target_values s
      \<and> dic_in_fix_param s3 = dic_in_fix_param s \<and> dic_resistors s3 = dic_resistors s
      \<and> dic_capacitors s3 = dic_capacitors s \<and> dic_inductors s3 = dic_inductors s
      \<and> g_best_prev_error s3 = g_best_prev_error s"
  proof (cases "?e > g_worst_prev_error s")
    case False
    with assms rd have "b = False" "s3 = s"
      by (auto simp: calc_absolute_distance_error_worst_def Let_def get_worst_prev_error_def)
    with False show ?thesis by simp
  next
    case True
    let ?s0 = "set_worst_prev_error ?e s"
    from assms rd True obtain s1 where
      w1: "set_dic_target_calc_values ''V_low_threshold'' T_WORST_VALUE o_lo ?s0 = Done s1" and
      w2: "set_dic_target_calc_values ''V_high_threshold'' T_WORST_VALUE o_hi s1 = Done s3" and
      b: "b = True"
      by (auto simp: calc_absolute_distance_error_worst_def Let_def get_worst_prev_error_def
            split: outcome.splits)
    note a = set_dic_target_Done [OF w1] and c = set_dic_target_Done [OF w2]
    have tv: "target_values s3 = target_values ?s0"
      by (rule target_values_eqI) (simp add: a(7) c(7))
    have tv0: "target_values ?s0 = target_values s"
      by (rule target_values_cong) (simp add: set_worst_prev_error_def)
    have fr: "g_worst_prev_error ?s0 = ?e" "dic_in_fix_param ?s0 = dic_in_fix_param s"
      "dic_resistors ?s0 = dic_resistors s" "dic_capacitors ?s0 = dic_capacitors s"
      "dic_inductors ?s0 = dic_inductors s" "g_best_prev_error ?s0 = g_best_prev_error s"
      by (simp_all add: set_worst_prev_error_def)
    show ?thesis
      using True b by (simp add: a c tv tv0 fr)
  qed
  show "\<exists>t_lo t_hi o_lo o_hi. read_targets_and_obtained s = Inr (t_lo, t_hi, o_lo, o_hi)
      \<and> b = (absolute_distance_error t_lo t_hi o_lo o_hi > g_worst_prev_error s)
      \<and> g_worst_prev_error s3 =
          max (g_worst_prev_error s) (absolute_distance_error t_lo t_hi o_lo o_hi)"
    using rd goal by blast
  show "target_values s3 = target_values s"
    and "dic_in_fix_param s3 = dic_in_fix_param s" "dic_resistors s3 = dic_resistors s"
      "dic_capacitors s3 = dic_capacitors s" "dic_inductors s3 = dic_inductors s"
      "g_best_prev_error s3 = g_best_prev_error s"
    using goal by simp_all
qed


lemma fst_set_zip: "length c = length ids \<Longrightarrow> fst ` set (zip ids c) = set ids"
  by (metis map_fst_zip set_map)

lemma set_fields_Done_frame:
  assumes "map_ids_and_component_combination_vals__set_fields ids c f s = Done s'"
  shows "dic_in_fix_param s' = dic_in_fix_param s" "target_values s' = target_values s"
    "g_best_prev_error s' = g_best_prev_error s" "g_worst_prev_error s' = g_worst_prev_error s"
proof -
  have sf: "same_frame s s'"
    using set_fields_frame [of s ids c f] assms by simp
  then show "dic_in_fix_param s' = dic_in_fix_param s"
    "g_best_prev_error s' = g_best_prev_error s" "g_worst_prev_error s' = g_worst_prev_error s"
    by (simp_all add: same_frame_def)
  show "target_values s' = target_values s"
    by (rule target_values_cong) (use sf in \<open>simp add: same_frame_def\<close>)
qed

lemma evaluate_step:
  assumes ag: "agree (set ids) s0 s" and len: "length c = length ids"
    and sf: "map_ids_and_component_combination_vals__set_fields ids c C_CURR_VALUE s = Done s1"
    and ce: "calc_evaluation_of_circuit_equations ev (s1\<lparr>events := es\<rparr>) = Done s2"
  shows "\<exists>o_lo o_hi. combination_outputs ev ids s0 c = Some (o_lo, o_hi)
      \<and> get_dic_target_calc_values s2 ''V_low_threshold'' tcv_calc_value = Inr o_lo
      \<and> get_dic_target_calc_values s2 ''V_high_threshold'' tcv_calc_value = Inr o_hi"
    and "target_values s2 = target_values s0"
    and "agree (set ids) s0 s2"
    and "g_best_prev_error s2 = g_best_prev_error s"
    and "g_worst_prev_error s2 = g_worst_prev_error s"
proof -
  let ?s1e = "s1\<lparr>events := es\<rparr>"
  note fr = set_fields_Done_frame [OF sf]
  note cd = calc_evaluation_Done [OF ce]
  from set_fields_sync [OF agree_sym [OF ag] sf] obtain t' where
    t': "map_ids_and_component_combination_vals__set_fields ids c C_CURR_VALUE s0 = Done t'"
        "agree (set ids - fst ` set (zip ids c)) s1 t'"
    by blast
  have "agree {} s1 t'" using t'(2) by (simp add: fst_set_zip [OF len])
  then have re: "run_evaluator ev t' = run_evaluator ev s1"
    using run_evaluator_agree [of s1 t' ev] by simp
  from cd(1) obtain o_lo o_hi where o:
    "run_evaluator ev ?s1e = Inr (o_lo, o_hi)"
    "get_dic_target_calc_values s2 ''V_low_threshold'' tcv_calc_value = Inr o_lo"
    "get_dic_target_calc_values s2 ''V_high_threshold'' tcv_calc_value = Inr o_hi"
    by blast
  have o1: "run_evaluator ev s1 = Inr (o_lo, o_hi)" using o(1) by simp
  have "combination_outputs ev ids s0 c = Some (o_lo, o_hi)"
    by (simp add: combination_outputs_alt t'(1) re o1)
  with o show "\<exists>o_lo o_hi. combination_outputs ev ids s0 c = Some (o_lo, o_hi)
      \<and> get_dic_target_calc_values s2 ''V_low_threshold'' tcv_calc_value = Inr o_lo
      \<and> get_dic_target_calc_values s2 ''V_high_threshold'' tcv_calc_value = Inr o_hi"
    by blast
  have tv1e: "target_values ?s1e = target_values s1"
    by (rule target_values_cong) simp
  have tvs: "target_values s0 = target_values s" using ag by (simp add: agree_def)
  show tv2: "target_values s2 = target_values s0"
    by (simp add: cd(2) tv1e fr(2) tvs)
  have a1: "agree (set ids) s s1"
    using set_fields_agree_self [OF sf, of "{}"] by simp
  have a2: "agree (set ids) s1 s2"
    by (rule agree_same_parts) (simp_all add: cd tv1e)
  show "agree (set ids) s0 s2"
    by (rule agree_trans [OF ag agree_trans [OF a1 a2]])
  show "g_best_prev_error s2 = g_best_prev_error s" "g_worst_prev_error s2 = g_worst_prev_error s"
    by (simp_all add: cd fr)
qed

lemma best_step_Done:
  assumes ag: "agree (set ids) s0 s" and len: "length c = length ids"
    and st: "best_step ev ids c s = Done s'"
  shows "\<exists>e. combination_error distance_error ev ids s0 c = Some e
            \<and> g_best_prev_error s' = min (g_best_prev_error s) e"
    and "agree (set ids) s0 s'"
proof -
  from st obtain s1 s2 b s3 where
    sf: "map_ids_and_component_combination_vals__set_fields ids c C_CURR_VALUE s = Done s1" and
    ce: "calc_evaluation_of_circuit_equations ev (s1\<lparr>events := events s1 @ [Evaluate c]\<rparr>)
           = Done s2" and
    cb: "calc_distance_error_best s2 = Done (b, s3)" and
    fin: "(if b then map_ids_and_component_combination_vals__set_fields ids c C_BEST_VALUE s3
           else Done s3) = Done s'"
    by (auto simp: best_step_def split: outcome.splits prod.splits)
  note es = evaluate_step [OF ag len sf ce]
  note bd = calc_distance_error_best_Done [OF cb]
  from es(1) obtain o_lo o_hi where o:
    "combination_outputs ev ids s0 c = Some (o_lo, o_hi)"
    "get_dic_target_calc_values s2 ''V_low_threshold'' tcv_calc_value = Inr o_lo"
    "get_dic_target_calc_values s2 ''V_high_threshold'' tcv_calc_value = Inr o_hi"
    by blast
  from bd(1) obtain t_lo t_hi o_lo' o_hi' where r:
    "read_targets_and_obtained s2 = Inr (t_lo, t_hi, o_lo', o_hi')"
    "g_best_prev_error s3 =
       min (g_best_prev_error s2) (distance_error t_lo t_hi o_lo' o_hi')"
    by blast
  from r(1) o(2,3) have same: "o_lo' = o_lo" "o_hi' = o_hi" and
    tv: "target_values s2 = Some (t_lo, t_hi)"
    by (simp_all add: read_targets_and_obtained_iff)
  have ce0: "combination_error distance_error ev ids s0 c =
      Some (distance_error t_lo t_hi o_lo o_hi)"
    using tv es(2) o(1) by (simp add: combination_error_def)
  have a3: "agree (set ids) s2 s3"
    by (rule agree_same_parts) (simp_all add: bd)
  have g3: "g_best_prev_error s3 =
      min (g_best_prev_error s) (distance_error t_lo t_hi o_lo o_hi)"
    using r(2) same es(4) by simp
  have "g_best_prev_error s' = g_best_prev_error s3 \<and> agree (set ids) s3 s'"
  proof (cases b)
    case True
    with fin have w:
      "map_ids_and_component_combination_vals__set_fields ids c C_BEST_VALUE s3 = Done s'"
      by simp
    show ?thesis
      using set_fields_Done_frame(3) [OF w] set_fields_agree_self [OF w, of "{}"] by simp
  next
    case False
    with fin show ?thesis by (simp add: agree_refl)
  qed
  then show "\<exists>e. combination_error distance_error ev ids s0 c = Some e
            \<and> g_best_prev_error s' = min (g_best_prev_error s) e"
    and "agree (set ids) s0 s'"
    using ce0 g3 agree_trans [OF es(3) a3] agree_trans by auto
qed

lemma worst_step_Done:
  assumes ag: "agree (set ids) s0 s" and len: "length c = length ids"
    and st: "worst_step ev ids c s = Done s'"
  shows "\<exists>e. combination_error absolute_distance_error ev ids s0 c = Some e
            \<and> g_worst_prev_error s' = max (g_worst_prev_error s) e"
    and "agree (set ids) s0 s'"
proof -
  from st obtain s1 s2 b s3 where
    sf: "map_ids_and_component_combination_vals__set_fields ids c C_CURR_VALUE s = Done s1" and
    ce: "calc_evaluation_of_circuit_equations ev (s1\<lparr>events := events s1 @ [Evaluate c]\<rparr>)
           = Done s2" and
    cb: "calc_absolute_distance_error_worst s2 = Done (b, s3)" and
    fin: "(if b then map_ids_and_component_combination_vals__set_fields ids c C_WORST_VALUE s3
           else Done s3) = Done s'"
    by (auto simp: worst_step_def split: outcome.splits prod.splits)
  note es = evaluate_step [OF ag len sf ce]
  note bd = calc_absolute_distance_error_worst_Done [OF cb]
  from es(1) obtain o_lo o_hi where o:
    "combination_outputs ev ids s0 c = Some (o_lo, o_hi)"
    "get_dic_target_calc_values s2 ''V_low_threshold'' tcv_calc_value = Inr o_lo"
    "get_dic_target_calc_values s2 ''V_high_threshold'' tcv_calc_value = Inr o_hi"
    by blast
  from bd(1) obtain t_lo t_hi o_lo' o_hi' where r:
    "read_targets_and_obtained s2 = Inr (t_lo, t_hi, o_lo', o_hi')"
    "g_worst_prev_error s3 =
       max (g_worst_prev_error s2) (absolute_distance_error t_lo t_hi o_lo' o_hi')"
    by blast
  from r(1) o(2,3) have same: "o_lo' = o_lo" "o_hi' = o_hi" and
    tv: "target_values s2 = Some (t_lo, t_hi)"
    by (simp_all add: read_targets_and_obtained_iff)
  have ce0: "combination_error absolute_distance_error ev ids s0 c =
      Some (absolute_distance_error t_lo t_hi o_lo o_hi)"
    using tv es(2) o(1) by (simp add: combination_error_def)
  have a3: "agree (set ids) s2 s3"
    by (rule agree_same_parts) (simp_all add: bd)
  have g3: "g_worst_prev_error s3 =
      max (g_worst_prev_error s) (absolute_distance_error t_lo t_hi o_lo o_hi)"
    using r(2) same es(5) by simp
  have "g_worst_prev_error s' = g_worst_prev_error s3 \<and> agree (set ids) s3 s'"
  proof (cases b)
    case True
    with fin have w:
      "map_ids_and_component_combination_vals__set_fields ids c C_WORST_VALUE s3 = Done s'"
      by simp
    show ?thesis
      using set_fields_Done_frame(4) [OF w] set_fields_agree_self [OF w, of "{}"] by simp
  next
    case False
    with fin show ?thesis by (simp add: agree_refl)
  qed
  then show "\<exists>e. combination_error absolute_distance_error ev ids s0 c = Some e
            \<and> g_worst_prev_error s' = max (g_worst_prev_error s) e"
    and "agree (set ids) s0 s'"
    using ce0 g3 agree_trans [OF es(3) a3] agree_trans by auto
qed


lemma best_loop_Done:
  assumes "agree (set ids) s0 s" "\<forall>c\<in>set cs. length c = length ids"
    "best_loop ev ids cs s = Done s'"
  shows "\<exists>es. map (combination_error distance_error ev ids s0) cs = map Some es
          \<and> g_best_prev_error s' = fold min es (g_best_prev_error s)"
  using assms
proof (induction cs arbitrary: s)
  case Nil
  then show ?case by simp
next
  case (Cons c cs)
  from Cons.prems(3) obtain s1 where
    st: "best_step ev ids c s = Done s1" and lp: "best_loop ev ids cs s1 = Done s'"
    by (auto split: outcome.splits)
  have len: "length c = length ids" using Cons.prems(2) by simp
  from best_step_Done [OF Cons.prems(1) len st] obtain e where
    e: "combination_error distance_error ev ids s0 c = Some e"
       "g_best_prev_error s1 = min (g_best_prev_error s) e"
    and ag1: "agree (set ids) s0 s1"
    by blast
  from Cons.IH [OF ag1 _ lp] Cons.prems(2) obtain es where
    es: "map (combination_error distance_error ev ids s0) cs = map Some es"
        "g_best_prev_error s' = fold min es (g_best_prev_error s1)"
    by auto
  show ?case
    using e es by (intro exI [of _ "e # es"]) (simp add: min.commute)
qed

lemma worst_loop_Done:
  assumes "agree (set ids) s0 s" "\<forall>c\<in>set cs. length c = length ids"
    "worst_loop ev ids cs s = Done s'"
  shows "\<exists>es. map (combination_error absolute_distance_error ev ids s0) cs = map Some es
          \<and> g_worst_prev_error s' = fold max es (g_worst_prev_error s)"
  using assms
proof (induction cs arbitrary: s)
  case Nil
  then show ?case by simp
next
  case (Cons c cs)
  from Cons.prems(3) obtain s1 where
    st: "worst_step ev ids c s = Done s1" and lp: "worst_loop ev ids cs s1 = Done s'"
    by (auto split: outcome.splits)
  have len: "length c = length ids" using Cons.prems(2) by simp
  from worst_step_Done [OF Cons.prems(1) len st] obtain e where
    e: "combination_error absolute_distance_error ev ids s0 c = Some e"
       "g_worst_prev_error s1 = max (g_worst_prev_error s) e"
    and ag1: "agree (set ids) s0 s1"
    by blast
  from Cons.IH [OF ag1 _ lp] Cons.prems(2) obtain es where
    es: "map (combination_error absolute_distance_error ev ids s0) cs = map Some es"
        "g_worst_prev_error s' = fold max es (g_worst_prev_error s1)"
    by auto
  show ?case
    using e es by (intro exI [of _ "e # es"]) (simp add: max.commute)
qed

lemma fold_min_Min: "fold min es (b :: real) = Min (insert b (set es))"
  using Min.set_eq_fold [of b es] by simp

lemma fold_max_Max: "fold max es (b :: real) = Max (insert b (set es))"
  using Max.set_eq_fold [of b es] by simp

lemma errors_set:
  "map f cs = map Some es \<Longrightarrow> {e. \<exists>c\<in>set cs. f c = Some e} = set es"
proof (induction cs arbitrary: es)
  case Nil
  then show ?case by simp
next
  case (Cons c cs)
  from Cons.prems obtain e es' where es: "es = e # es'" "f c = Some e" "map f cs = map Some es'"
    by (cases es) auto
  have "{e. \<exists>c\<in>set cs. f c = Some e} = set es'" by (rule Cons.IH [OF es(3)])
  then have "{x. \<exists>c'\<in>set (c # cs). f c' = Some x} = insert e (set es')"
    using es(2) by auto
  then show ?case by (simp add: es(1))
qed

section \<open>The best pass finds the minimum\<close>

lemma the_lists_Inr: "the_lists xs = Inr ls \<Longrightarrow> xs = map Some ls"
proof (induction xs arbitrary: ls)
  case Nil
  then show ?case by simp
next
  case (Cons x xs)
  then show ?case by (cases x) (auto split: sum.splits)
qed

lemma combos_length:
  assumes "the_lists (snd (combined_lists s field)) = Inr lsts"
    and "c \<in> set (itertools_product lsts)"
  shows "length c = length (fst (combined_lists s field))"
proof -
  have "length lsts = length (snd (combined_lists s field))"
    using the_lists_Inr [OF assms(1)] by simp
  then show ?thesis
    using in_itertools_product_length [OF assms(2)] length_combined_lists [of s field] by simp
qed

lemma ask_continue_Done_parts:
  "ask_continue inp s = Done s1 \<Longrightarrow>
     dic_in_fix_param s1 = dic_in_fix_param s
   \<and> dic_target_calc_values s1 = dic_target_calc_values s
   \<and> dic_resistors s1 = dic_resistors s \<and> dic_capacitors s1 = dic_capacitors s
   \<and> dic_inductors s1 = dic_inductors s
   \<and> g_best_prev_error s1 = g_best_prev_error s
   \<and> g_worst_prev_error s1 = g_worst_prev_error s"
proof (induction inp arbitrary: s)
  case Nil
  then show ?case by simp
next
  case (Cons a inp)
  show ?case
  proof (cases "a = ''y'' \<or> a = ''Y''")
    case True
    with Cons.prems show ?thesis by (auto simp: Let_def)
  next
    case False
    with Cons.prems have
      "ask_continue inp (s\<lparr>stdin := inp, events := events s @ [Prompt]\<rparr>) = Done s1"
      by (auto simp: Let_def split: if_splits)
    from Cons.IH [OF this] show ?thesis by simp
  qed
qed

lemma full_search_Done:
  assumes "full_search_of_R_C_L_component_values ev s = Done s'"
    and "the_lists (snd (combined_lists s C_EXPANDED_VALUES)) = Inr lsts"
  shows "\<exists>s1. best_loop ev (fst (combined_lists s C_EXPANDED_VALUES)) (itertools_product lsts) s1
            = Done s'
         \<and> agree K s s1 \<and> g_best_prev_error s1 = g_best_prev_error s"
proof -
  let ?ids = "fst (combined_lists s C_EXPANDED_VALUES)"
  let ?cs = "itertools_product lsts"
  have fs: "full_search_of_R_C_L_component_values ev s =
      (case (if max_number_evaluations lsts > 25000000 then ask_continue (stdin s) s
             else Done s) of
         Done s1 \<Rightarrow> best_loop ev ?ids ?cs s1 | r \<Rightarrow> r)"
    using full_search_unfold [OF assms(2), of ev] assms(1)
    by (simp split: if_splits)
  show ?thesis
  proof (cases "max_number_evaluations lsts > 25000000")
    case False
    with fs assms(1) have "best_loop ev ?ids ?cs s = Done s'" by simp
    then show ?thesis using agree_refl by blast
  next
    case True
    with fs assms(1) obtain s1 where
      a: "ask_continue (stdin s) s = Done s1" and b: "best_loop ev ?ids ?cs s1 = Done s'"
      by (auto split: outcome.splits)
    note p = ask_continue_Done_parts [OF a]
    have tv: "target_values s = target_values s1"
      by (rule target_values_cong) (simp add: p)
    have "agree K s s1"
      by (rule agree_same_parts) (simp_all add: p tv)
    with b p show ?thesis by blast
  qed
qed

text \<open>
  The best pass and the minimum. After the best pass has run over the full enumeration,
  every enumerated combination has a Euclidean error
  \<open>sqrt ((target_low - obtained_low)\<^sup>2 + (target_high - obtained_high)\<^sup>2)\<close>, computed
  from the evaluator's outputs for that combination, and no combination has an error
  strictly below the final best error. The final best error is the minimum of the best
  error at the start of the pass and the errors of all enumerated combinations; it is the
  minimum over the combinations whenever some combination has an error at or below the
  starting value.
\<close>

theorem best_pass_minimum:
  assumes "full_search_of_R_C_L_component_values ev s = Done s'"
    and "the_lists (snd (combined_lists s C_EXPANDED_VALUES)) = Inr lsts"
  shows
    "(\<forall>c\<in>set (itertools_product lsts).
        \<exists>e. combination_error distance_error ev (fst (combined_lists s C_EXPANDED_VALUES)) s c
              = Some e
           \<and> g_best_prev_error s' \<le> e)
     \<and> g_best_prev_error s' =
         Min (insert (g_best_prev_error s)
                {e. \<exists>c\<in>set (itertools_product lsts).
                      combination_error distance_error ev
                        (fst (combined_lists s C_EXPANDED_VALUES)) s c = Some e})
     \<and> ((\<exists>c\<in>set (itertools_product lsts). \<exists>e.
            combination_error distance_error ev
              (fst (combined_lists s C_EXPANDED_VALUES)) s c = Some e
            \<and> e \<le> g_best_prev_error s) \<longrightarrow>
         g_best_prev_error s' =
           Min {e. \<exists>c\<in>set (itertools_product lsts).
                      combination_error distance_error ev
                        (fst (combined_lists s C_EXPANDED_VALUES)) s c = Some e})"
proof -
  let ?ids = "fst (combined_lists s C_EXPANDED_VALUES)"
  let ?cs = "itertools_product lsts"
  let ?err = "combination_error distance_error ev ?ids s"
  let ?E = "{e. \<exists>c\<in>set ?cs. ?err c = Some e}"
  from full_search_Done [OF assms, of "set ?ids"] obtain s1 where
    lp: "best_loop ev ?ids ?cs s1 = Done s'" and ag: "agree (set ?ids) s s1"
    and g1: "g_best_prev_error s1 = g_best_prev_error s"
    by blast
  have len: "\<forall>c\<in>set ?cs. length c = length ?ids"
    using combos_length [OF assms(2)] by blast
  from best_loop_Done [OF ag len lp] obtain es where
    es: "map ?err ?cs = map Some es" and
    g: "g_best_prev_error s' = fold min es (g_best_prev_error s1)"
    by blast
  have E: "?E = set es" by (rule errors_set [OF es])
  have gm: "g_best_prev_error s' = Min (insert (g_best_prev_error s) (set es))"
    by (simp add: g g1 fold_min_Min)
  have all: "\<forall>c\<in>set ?cs. \<exists>e. ?err c = Some e \<and> g_best_prev_error s' \<le> e"
  proof
    fix c assume c: "c \<in> set ?cs"
    then have "?err c \<in> set (map Some es)" using es by (metis image_eqI set_map)
    then obtain e where e: "?err c = Some e" "e \<in> set es" by auto
    then have "g_best_prev_error s' \<le> e" by (simp add: gm)
    with e show "\<exists>e. ?err c = Some e \<and> g_best_prev_error s' \<le> e" by blast
  qed
  have low: "g_best_prev_error s' = Min (set es)"
    if "\<exists>c\<in>set ?cs. \<exists>e. ?err c = Some e \<and> e \<le> g_best_prev_error s"
  proof -
    from that E obtain e where e: "e \<in> set es" "e \<le> g_best_prev_error s" by blast
    then have ne: "set es \<noteq> {}" by auto
    have "Min (set es) \<le> e" using e(1) by simp
    then have "Min (set es) \<le> g_best_prev_error s" using e(2) by simp
    moreover have "Min (insert (g_best_prev_error s) (set es)) =
        min (g_best_prev_error s) (Min (set es))"
      using ne by (intro Min_insert) auto
    ultimately show ?thesis
      by (simp only: gm min_absorb2)
  qed
  show ?thesis
    unfolding E using all gm low unfolding E by blast
qed

section \<open>The best pass on two concrete configurations\<close>

lemmas cfg_defs = fixed_resistors_state_def initial_state_def dic_capacitors_0_def
  dic_inductors_0_def dic_target_calc_values_0_def new_component_def new_target_def
  g_best_prev_error_init_def g_worst_prev_error_init_def

lemmas run_defs = expand_all_components_def expand_values_def combined_lists_def
  make_list_component_expanded_values_def make_two_combined_list_of_components_def
  less_list_code less_eq_list_code max_number_evaluations_def
  full_search_of_R_C_L_component_values_def float_of_int_def itertools_product_def
  best_step_def calc_evaluation_of_circuit_equations_def circuit_equations_def
  get_dic_in_fix_param_def get_dic_resistors_def get_dic_capacitors_def get_dic_inductors_def
  get_dic_target_calc_values_def process_inner_dic_def py_div_def
  set_dic_target_calc_values_def calc_distance_error_best_def read_targets_and_obtained_def
  get_best_prev_error_def set_best_prev_error_def Let_def

text \<open>
  Claim C1: after the best pass the final best error is the minimum of the Euclidean
  errors of all enumerated combinations. The program fails to deliver it when every error
  exceeds 10000000000, the finite number with which the best error starts. With a supply
  of 30000000000 volt and the three resistors fixed at 1000 ohm (a configuration that
  passes the consistency test), both enumerated combinations give the thresholds
  10000000000 and 20000000000 and an error of about 22360679775. The pass never updates:
  the final best error is still 10000000000, not the minimum over the enumerated
  combinations; no best value is recorded, although the program is to keep the best
  combination, and \<^verbatim>\<open>main\<close> then raises \<^verbatim>\<open>TypeError\<close> when its report formats the
  best values, which are \<^verbatim>\<open>None\<close>.
\<close>

theorem best_pass_counterexample:
  "let s0 = fixed_resistors_state 30000000000;
       s1 = outcome_state (expand_all_components s0);
       s2 = outcome_state (full_search_of_R_C_L_component_values circuit_equations s1);
       ids = fst (combined_lists s1 C_EXPANDED_VALUES);
       e = sqrt ((555 / 1000 - 10000000000)\<^sup>2 + (575 / 1000 - 20000000000)\<^sup>2)
   in consistency_testing_of_fixed_parameters s0 = Inr True
    \<and> expand_all_components s0 = Done s1
    \<and> g_best_prev_error s1 = 10000000000
    \<and> the_lists (snd (combined_lists s1 C_EXPANDED_VALUES)) =
         Inr [[1000], [1000], [1000], [1 / 10 ^ 6], [1 / 10 ^ 6, 10 / 10 ^ 6], [1 / 10 ^ 3]]
    \<and> itertools_product
         [[1000], [1000], [1000], [1 / 10 ^ 6], [1 / 10 ^ 6, 10 / 10 ^ 6], [1 / 10 ^ 3]] =
         [[1000, 1000, 1000, 1 / 10 ^ 6, 1 / 10 ^ 6, 1 / 10 ^ 3],
          [1000, 1000, 1000, 1 / 10 ^ 6, 10 / 10 ^ 6, 1 / 10 ^ 3]]
    \<and> full_search_of_R_C_L_component_values circuit_equations s1 = Done s2
    \<and> combination_error distance_error circuit_equations ids s1
         [1000, 1000, 1000, 1 / 10 ^ 6, 1 / 10 ^ 6, 1 / 10 ^ 3] = Some e
    \<and> combination_error distance_error circuit_equations ids s1
         [1000, 1000, 1000, 1 / 10 ^ 6, 10 / 10 ^ 6, 1 / 10 ^ 3] = Some e
    \<and> g_best_prev_error s2 = 10000000000
    \<and> 10000000000 < e
    \<and> g_best_prev_error s2 \<noteq> Min {e}
    \<and> map (\<lambda>(k, comp). comp_best_value comp)
         (dic_resistors s2 @ dic_capacitors s2 @ dic_inductors s2) =
         [None, None, None, None, None, None]
    \<and> map (\<lambda>(k, t). tcv_best_value t) (dic_target_calc_values s2) = [None, None]
    \<and> print_report tcv_best_value comp_best_value s2 = Inl TypeError
    \<and> main circuit_equations s0 = Raised TypeError s2"
proof -
  have lt: "10000000000 < sqrt ((555 / 1000 - 10000000000)\<^sup>2 + (575 / 1000 - 20000000000)\<^sup>2)"
    by (rule real_less_rsqrt) (simp add: power2_eq_square)
  have de: "distance_error (555 / 1000) (575 / 1000) 10000000000 20000000000 =
      sqrt ((555 / 1000 - 10000000000)\<^sup>2 + (575 / 1000 - 20000000000)\<^sup>2)"
    by (simp add: distance_error_def)
  show ?thesis
    using de lt
    by (simp add: cfg_defs run_defs combination_error_def combination_outputs_def
          target_values_def main_def print_specification_def print_report_def percent_f_def
          consistency_testing_of_fixed_parameters_def)
qed

lemma small: "distance_error (555 / 1000) (575 / 1000) (5 / 3) (10 / 3) < 10000000000"
proof -
  have "sqrt ((555 / 1000 - 5 / 3)\<^sup>2 + (575 / 1000 - 10 / 3)\<^sup>2) < 10000000000"
    by (rule real_less_lsqrt) (simp_all add: power2_eq_square)
  then show ?thesis by (simp add: distance_error_def)
qed

theorem best_pass_minimum_witness:
  "let s1 = outcome_state (expand_all_components (fixed_resistors_state 5));
       s2 = outcome_state (full_search_of_R_C_L_component_values circuit_equations s1);
       ids = fst (combined_lists s1 C_EXPANDED_VALUES);
       cs = itertools_product
              [[1000], [1000], [1000], [1 / 10 ^ 6], [1 / 10 ^ 6, 10 / 10 ^ 6], [1 / 10 ^ 3]]
   in full_search_of_R_C_L_component_values circuit_equations s1 = Done s2
    \<and> g_best_prev_error s2 =
         Min (insert (g_best_prev_error s1)
                {e. \<exists>c\<in>set cs. combination_error distance_error circuit_equations ids s1 c
                       = Some e})"
proof -
  let ?s1 = "outcome_state (expand_all_components (fixed_resistors_state 5))"
  let ?s2 = "outcome_state (full_search_of_R_C_L_component_values circuit_equations ?s1)"
  have run: "full_search_of_R_C_L_component_values circuit_equations ?s1 = Done ?s2"
    using small
    by (simp add: cfg_defs run_defs map_ids_and_component_combination_vals__set_fields.simps)
  have ls: "the_lists (snd (combined_lists ?s1 C_EXPANDED_VALUES)) =
      Inr [[1000], [1000], [1000], [1 / 10 ^ 6], [1 / 10 ^ 6, 10 / 10 ^ 6], [1 / 10 ^ 3]]"
    by (simp add: cfg_defs run_defs)
  from best_pass_minimum [OF run ls] run show ?thesis
    by (simp only: Let_def)
qed


lemma calc_distance_error_best_total:
  assumes "read_targets_and_obtained s = Inr (t_lo, t_hi, o_lo, o_hi)"
  shows "\<exists>s'. calc_distance_error_best s =
           Done (distance_error t_lo t_hi o_lo o_hi < g_best_prev_error s, s')"
proof (cases "distance_error t_lo t_hi o_lo o_hi < g_best_prev_error s")
  case False
  with assms show ?thesis
    by (simp add: calc_distance_error_best_def get_best_prev_error_def)
next
  case True
  let ?e = "distance_error t_lo t_hi o_lo o_hi"
  let ?s0 = "set_best_prev_error ?e s"
  from assms have k: "map_of (dic_target_calc_values s) ''V_low_threshold'' \<noteq> None"
    "map_of (dic_target_calc_values s) ''V_high_threshold'' \<noteq> None"
    by (auto simp: read_targets_and_obtained_def get_dic_target_calc_values_def
          process_inner_dic_def split: sum.splits option.splits)
  from k(1) obtain s1 where
    w1: "set_dic_target_calc_values ''V_low_threshold'' T_BEST_VALUE o_lo ?s0 = Done s1"
    and t1: "dic_target_calc_values s1 =
      AList.map_entry ''V_low_threshold'' (set_target_field T_BEST_VALUE o_lo)
        (dic_target_calc_values s)"
    by (auto simp: set_dic_target_calc_values_def set_best_prev_error_def)
  from k(2) t1 have "map_of (dic_target_calc_values s1) ''V_high_threshold'' \<noteq> None"
    by (simp add: map_of_map_entry_eq)
  then obtain s2 where
    w2: "set_dic_target_calc_values ''V_high_threshold'' T_BEST_VALUE o_hi s1 = Done s2"
    by (auto simp: set_dic_target_calc_values_def)
  from assms True w1 w2 show ?thesis
    by (simp add: calc_distance_error_best_def get_best_prev_error_def)
qed

text \<open>
  The first update. The best error of a fresh program is 10000000000. A combination met
  while the best error has that value is recorded as the best so far exactly when its
  Euclidean error is strictly below 10000000000; then the best error becomes that error,
  otherwise it stays 10000000000.
\<close>

theorem first_combination_qualifies:
  "g_best_prev_error (initial_state lines) = 10000000000
   \<and> (g_best_prev_error s = 10000000000
        \<and> read_targets_and_obtained s = Inr (t_lo, t_hi, o_lo, o_hi) \<longrightarrow>
        (\<exists>s'. calc_distance_error_best s =
                Done (distance_error t_lo t_hi o_lo o_hi < 10000000000, s')))
   \<and> (g_best_prev_error s = 10000000000 \<and> length c = length ids
        \<and> best_step ev ids c s = Done s' \<longrightarrow>
        (\<exists>e. combination_error distance_error ev ids s c = Some e
            \<and> g_best_prev_error s' = (if e < 10000000000 then e else 10000000000)))"
proof -
  have a: "g_best_prev_error (initial_state lines) = 10000000000"
    by (simp add: initial_state_def g_best_prev_error_init_def)
  have b: "\<exists>s'. calc_distance_error_best s =
                Done (distance_error t_lo t_hi o_lo o_hi < 10000000000, s')"
    if "g_best_prev_error s = 10000000000"
       "read_targets_and_obtained s = Inr (t_lo, t_hi, o_lo, o_hi)"
    using calc_distance_error_best_total [OF that(2)] that(1) by simp
  have c: "\<exists>e. combination_error distance_error ev ids s c = Some e
            \<and> g_best_prev_error s' = (if e < 10000000000 then e else 10000000000)"
    if "g_best_prev_error s = 10000000000" "length c = length ids"
       "best_step ev ids c s = Done s'"
  proof -
    from best_step_Done(1) [OF agree_refl that(2,3)] obtain e where
      "combination_error distance_error ev ids s c = Some e"
      "g_best_prev_error s' = min (g_best_prev_error s) e"
      by blast
    then show ?thesis using that(1) by (intro exI [of _ e]) (auto simp: min_def)
  qed
  from a b c show ?thesis by blast
qed


text \<open>
  Claim C3: the best error starts at plus infinity, so that the first enumerated
  combination always qualifies as the best so far. The program starts it at the finite
  number 10000000000 instead, and a first combination whose error is not below that number
  does not qualify. With the supply of 30000000000 volt and the three resistors fixed at
  1000 ohm, the first enumerated combination has an error of about 22360679775: the step
  leaves the best error at its initial value and records no best value.
\<close>

theorem first_combination_counterexample:
  "let s1 = outcome_state (expand_all_components (fixed_resistors_state 30000000000));
       ids = fst (combined_lists s1 C_EXPANDED_VALUES);
       c = [1000, 1000, 1000, 1 / 10 ^ 6, 1 / 10 ^ 6, 1 / 10 ^ 3];
       s' = outcome_state (best_step circuit_equations ids c s1);
       e = sqrt ((555 / 1000 - 10000000000)\<^sup>2 + (575 / 1000 - 20000000000)\<^sup>2)
   in g_best_prev_error s1 = g_best_prev_error_init
    \<and> hd (itertools_product
             [[1000], [1000], [1000], [1 / 10 ^ 6], [1 / 10 ^ 6, 10 / 10 ^ 6], [1 / 10 ^ 3]]) = c
    \<and> best_step circuit_equations ids c s1 = Done s'
    \<and> combination_error distance_error circuit_equations ids s1 c = Some e
    \<and> \<not> e < g_best_prev_error_init
    \<and> g_best_prev_error s' = g_best_prev_error_init
    \<and> map (\<lambda>(k, comp). comp_best_value comp) (dic_resistors s') = [None, None, None]
    \<and> map (\<lambda>(k, t). tcv_best_value t) (dic_target_calc_values s') = [None, None]"
proof -
  have lt: "10000000000 < sqrt ((555 / 1000 - 10000000000)\<^sup>2 + (575 / 1000 - 20000000000)\<^sup>2)"
    by (rule real_less_rsqrt) (simp add: power2_eq_square)
  have de: "distance_error (555 / 1000) (575 / 1000) 10000000000 20000000000 =
      sqrt ((555 / 1000 - 10000000000)\<^sup>2 + (575 / 1000 - 20000000000)\<^sup>2)"
    by (simp add: distance_error_def)
  show ?thesis
    using de lt
    by (simp add: cfg_defs run_defs combination_error_def combination_outputs_def
          target_values_def)
qed

theorem first_combination_qualifies_witness:
  "let s0 = (initial_state [])
              \<lparr>dic_target_calc_values :=
                 [(''V_low_threshold'', (new_target 0.555)\<lparr>tcv_calc_value := Some 0.5\<rparr>),
                  (''V_high_threshold'', (new_target 0.575)\<lparr>tcv_calc_value := Some 0.6\<rparr>)]\<rparr>;
       s1 = outcome_state (expand_all_components (fixed_resistors_state 5));
       ids = fst (combined_lists s1 C_EXPANDED_VALUES);
       c = [1000, 1000, 1000, 1 / 10 ^ 6, 1 / 10 ^ 6, 1 / 10 ^ 3];
       s' = outcome_state (best_step circuit_equations ids c s1)
   in (\<exists>s''. calc_distance_error_best s0 =
               Done (distance_error 0.555 0.575 0.5 0.6 < 10000000000, s''))
    \<and> best_step circuit_equations ids c s1 = Done s'
    \<and> (\<exists>e. combination_error distance_error circuit_equations ids s1 c = Some e
            \<and> g_best_prev_error s' = (if e < 10000000000 then e else 10000000000))"
proof -
  let ?s0 = "(initial_state [])
              \<lparr>dic_target_calc_values :=
                 [(''V_low_threshold'', (new_target 0.555)\<lparr>tcv_calc_value := Some 0.5\<rparr>),
                  (''V_high_threshold'', (new_target 0.575)\<lparr>tcv_calc_value := Some 0.6\<rparr>)]\<rparr>"
  let ?s1 = "outcome_state (expand_all_components (fixed_resistors_state 5))"
  let ?ids = "fst (combined_lists ?s1 C_EXPANDED_VALUES)"
  let ?c = "[1000, 1000, 1000, 1 / 10 ^ 6, 1 / 10 ^ 6, 1 / 10 ^ 3] :: real list"
  let ?s' = "outcome_state (best_step circuit_equations ?ids ?c ?s1)"
  have g0: "g_best_prev_error ?s0 = 10000000000"
    by (simp add: initial_state_def g_best_prev_error_init_def)
  have rd: "read_targets_and_obtained ?s0 = Inr (0.555, 0.575, 0.5, 0.6)"
    by (simp add: read_targets_and_obtained_def get_dic_target_calc_values_def
          process_inner_dic_def new_target_def)
  have g1: "g_best_prev_error ?s1 = 10000000000"
    by (simp add: cfg_defs run_defs)
  have len: "length ?c = length ?ids"
    by (simp add: cfg_defs run_defs)
  have run: "best_step circuit_equations ?ids ?c ?s1 = Done ?s'"
    using small
    by (simp add: cfg_defs run_defs)
  from first_combination_qualifies [of "[]" ?s0 "0.555" "0.575" "0.5" "0.6"] g0 rd
  have a: "\<exists>s''. calc_distance_error_best ?s0 =
               Done (distance_error 0.555 0.575 0.5 0.6 < 10000000000, s'')"
    by blast
  from first_combination_qualifies [of "[]" ?s1 _ _ _ _ ?c ?ids circuit_equations ?s'] g1 len run
  have b: "\<exists>e. combination_error distance_error circuit_equations ?ids ?s1 ?c = Some e
            \<and> g_best_prev_error ?s' = (if e < 10000000000 then e else 10000000000)"
    by blast
  from a run b show ?thesis by (simp only: Let_def) 
qed

end
